theory Spec2Isabelle
  imports Complex_Main "HOL-Library.AList" "HOL-Library.List_Lexorder"
    "HOL-Library.Product_Lexorder"
begin

section \<open>Text as sequences of code points\<close>

text \<open>
  A Python \<open>str\<close> is a sequence of Unicode code points, and \<open>len\<close>, indexing, comparison
  and the regular expressions of the program all work on code points. A text is therefore a
  list of code points, each the integer that \<open>ord\<close> gives. \<open>ascii\<close> reads an ASCII
  literal; the few characters of the source beyond ASCII are spliced in by their code point
  (\<open>0xEC\<close> is i with grave, \<open>0xE9\<close> e with acute, \<open>0xFC\<close> u with diaeresis,
  \<open>0x2019\<close> the typographic apostrophe).
\<close>

type_synonym unicode = "int list"

definition ascii :: "string \<Rightarrow> unicode" where
  "ascii s = map of_char s"

datatype py_error = KeyError | ValueError unicode

subsection \<open>The part of the Unicode character database the program reads\<close>

text \<open>
  \<open>str.lower\<close>, \<open>str.strip\<close>, \<open>unicodedata.normalize\<close>, \<open>unicodedata.combining\<close> and
  the class \<open>\s\<close> belong to the Python runtime. The table of whitespace is written out in
  full. The tables of \<open>lower\<close>, of the decomposition and of the combining marks are written
  out for the code points of \<open>modelled_cp\<close>: Basic Latin and Latin-1 Supplement, the
  combining marks \<open>U+0300..U+034E\<close>, the apostrophe and the dashes the source names, and the
  two code points (\<open>U+03BC\<close>, \<open>U+2044\<close>) that the decompositions of Latin-1 characters
  produce. Every name of the reference data and every input of the examples lies in that
  range. On any other code point the three functions below leave the character alone, which
  is what Python does for most but not all of them: \<open>U+010D\<close> decomposes to \<open>c\<close> and a
  caron, \<open>U+2102\<close> to \<open>C\<close>. A statement about every text is therefore made of
  \<open>base_normalize_with\<close> below, which takes the three functions of the runtime as
  parameters.
\<close>

definition modelled_cp :: "int \<Rightarrow> bool" where
  "modelled_cp c \<longleftrightarrow>
     (0 \<le> c \<and> c < 256) \<or> (0x300 \<le> c \<and> c \<le> 0x34E) \<or> c = 0x2019 \<or> c = 0x2013 \<or> c = 0x2014
     \<or> c = 0x3BC \<or> c = 0x2044"

text \<open>\<open>Py_UNICODE_ISSPACE\<close>: what \<open>str.strip()\<close> removes and what \<open>\s\<close> matches.\<close>

definition is_space :: "int \<Rightarrow> bool" where
  "is_space c \<longleftrightarrow>
     (9 \<le> c \<and> c \<le> 13) \<or> (28 \<le> c \<and> c \<le> 32) \<or> c = 0x85 \<or> c = 0xA0 \<or> c = 0x1680
     \<or> (0x2000 \<le> c \<and> c \<le> 0x200A) \<or> c = 0x2028 \<or> c = 0x2029 \<or> c = 0x202F
     \<or> c = 0x205F \<or> c = 0x3000"

definition lower_cp :: "int \<Rightarrow> int" where
  "lower_cp c =
     (if (0x41 \<le> c \<and> c \<le> 0x5A) \<or> (0xC0 \<le> c \<and> c \<le> 0xDE \<and> c \<noteq> 0xD7) then c + 32 else c)"

definition lower :: "unicode \<Rightarrow> unicode" where
  "lower s = map lower_cp s"

definition strip :: "unicode \<Rightarrow> unicode" where
  "strip s = rev (dropWhile is_space (rev (dropWhile is_space s)))"

text \<open>
  The full compatibility decomposition (NFKD) of one code point. The canonical reordering
  that NFKD applies afterwards only permutes combining marks, which \<open>strip_accents\<close>
  drops, so it does not show in the result.
\<close>

definition letter_mark :: "int \<Rightarrow> (int \<times> int) option" where
  "letter_mark c =
     (if c = 0xC0 then Some (0x41, 0x300) else if c = 0xC1 then Some (0x41, 0x301)
      else if c = 0xC2 then Some (0x41, 0x302) else if c = 0xC3 then Some (0x41, 0x303)
      else if c = 0xC4 then Some (0x41, 0x308) else if c = 0xC5 then Some (0x41, 0x30A)
      else if c = 0xC7 then Some (0x43, 0x327)
      else if c = 0xC8 then Some (0x45, 0x300) else if c = 0xC9 then Some (0x45, 0x301)
      else if c = 0xCA then Some (0x45, 0x302) else if c = 0xCB then Some (0x45, 0x308)
      else if c = 0xCC then Some (0x49, 0x300) else if c = 0xCD then Some (0x49, 0x301)
      else if c = 0xCE then Some (0x49, 0x302) else if c = 0xCF then Some (0x49, 0x308)
      else if c = 0xD1 then Some (0x4E, 0x303)
      else if c = 0xD2 then Some (0x4F, 0x300) else if c = 0xD3 then Some (0x4F, 0x301)
      else if c = 0xD4 then Some (0x4F, 0x302) else if c = 0xD5 then Some (0x4F, 0x303)
      else if c = 0xD6 then Some (0x4F, 0x308)
      else if c = 0xD9 then Some (0x55, 0x300) else if c = 0xDA then Some (0x55, 0x301)
      else if c = 0xDB then Some (0x55, 0x302) else if c = 0xDC then Some (0x55, 0x308)
      else if c = 0xDD then Some (0x59, 0x301)
      else if c = 0xFF then Some (0x79, 0x308)
      else None)"

definition decomp :: "int \<Rightarrow> unicode" where
  "decomp c =
     (if c = 0xA0 then [0x20]
      else if c = 0xA8 then [0x20, 0x308]
      else if c = 0xAA then [0x61]
      else if c = 0xAF then [0x20, 0x304]
      else if c = 0xB2 then [0x32]
      else if c = 0xB3 then [0x33]
      else if c = 0xB4 then [0x20, 0x301]
      else if c = 0xB5 then [0x3BC]
      else if c = 0xB8 then [0x20, 0x327]
      else if c = 0xB9 then [0x31]
      else if c = 0xBA then [0x6F]
      else if c = 0xBC then [0x31, 0x2044, 0x34]
      else if c = 0xBD then [0x31, 0x2044, 0x32]
      else if c = 0xBE then [0x33, 0x2044, 0x34]
      else if c = 0x340 then [0x300]
      else if c = 0x341 then [0x301]
      else if c = 0x343 then [0x313]
      else if c = 0x344 then [0x308, 0x301]
      else if 0xC0 \<le> c \<and> c \<le> 0xDF then
        (case letter_mark c of Some (l, m) \<Rightarrow> [l, m] | None \<Rightarrow> [c])
      else if 0xE0 \<le> c \<and> c < 0xFF then
        (case letter_mark (c - 32) of Some (l, m) \<Rightarrow> [l + 32, m] | None \<Rightarrow> [c])
      else if c = 0xFF then [0x79, 0x308]
      else [c])"

definition combining :: "int \<Rightarrow> bool" where
  "combining c \<longleftrightarrow> 0x300 \<le> c \<and> c \<le> 0x34E"

definition nfkd :: "unicode \<Rightarrow> unicode" where
  "nfkd s = concat (map decomp s)"

section \<open>Normalization helpers (standardize\_italy\_admin\_names.py)\<close>

definition strip_accents :: "unicode \<Rightarrow> unicode" where
  "strip_accents s = filter (\<lambda>c. \<not> combining c) (nfkd s)"

text \<open>\<open>re.sub(r"[...]", " ", s)\<close> for a character class: each member becomes a space.\<close>

definition sub_class :: "int list \<Rightarrow> unicode \<Rightarrow> unicode" where
  "sub_class cls s = map (\<lambda>c. if c \<in> set cls then 0x20 else c) s"

text \<open>\<open>re.sub(r"\s+", " ", s)\<close>: each maximal run of whitespace becomes one space.\<close>

function sub_spaces :: "unicode \<Rightarrow> unicode" where
  "sub_spaces [] = []"
| "sub_spaces (c # cs) =
     (if is_space c then 0x20 # sub_spaces (dropWhile is_space cs) else c # sub_spaces cs)"
  by pat_completeness auto
termination
  by (relation "measure length") (auto simp: length_dropWhile_le less_Suc_eq_le)

definition prefixes :: "unicode list" where
  "prefixes = [ascii ''provincia di'', ascii ''prov di'', ascii ''citta metropolitana di'']"

text \<open>
  \<open>re.sub(r"^(provincia di|prov di|citta metropolitana di)\s+", "", s)\<close>. The pattern is
  anchored at the start of the text, so it matches at most once: the first alternative that
  is followed by at least one whitespace character is removed together with the whole run
  of whitespace after it.
\<close>

fun sub_prefix_alts :: "unicode list \<Rightarrow> unicode \<Rightarrow> unicode" where
  "sub_prefix_alts [] s = s"
| "sub_prefix_alts (p # ps) s =
     (let rest = drop (length p) s in
      if take (length p) s = p \<and> rest \<noteq> [] \<and> is_space (hd rest)
      then dropWhile is_space rest
      else sub_prefix_alts ps s)"

definition sub_prefix :: "unicode \<Rightarrow> unicode" where
  "sub_prefix s = sub_prefix_alts prefixes s"

definition base_normalize :: "unicode \<Rightarrow> unicode" where
  "base_normalize s =
     (let s = strip_accents (strip (lower s));
          s = sub_class [0x2019, 0x27, 0x60] s;
          s = sub_class [0x2D, 0x2013, 0x2014] s;
          s = sub_spaces s;
          s = sub_prefix s
      in strip s)"

text \<open>
  The same two functions with the calls into the runtime as parameters: \<open>str_lower\<close> for
  \<open>str.lower\<close>, \<open>decompose\<close> for \<open>unicodedata.normalize("NFKD", _)\<close> and \<open>is_combining\<close>
  for the test \<open>unicodedata.combining(c)\<close> of \<open>strip_accents\<close>, which is true when the
  combining class is not zero. What is proved of them for all three parameters holds
  whatever the tables of the runtime are; \<open>strip_accents\<close> and \<open>base_normalize\<close> are
  their instances at the tables written out above.
\<close>

definition strip_accents_with ::
  "(unicode \<Rightarrow> unicode) \<Rightarrow> (int \<Rightarrow> bool) \<Rightarrow> unicode \<Rightarrow> unicode" where
  "strip_accents_with decompose is_combining s = filter (\<lambda>c. \<not> is_combining c) (decompose s)"

definition base_normalize_with ::
  "(unicode \<Rightarrow> unicode) \<Rightarrow> (unicode \<Rightarrow> unicode) \<Rightarrow> (int \<Rightarrow> bool) \<Rightarrow> unicode \<Rightarrow> unicode" where
  "base_normalize_with str_lower decompose is_combining s =
     (let s = strip_accents_with decompose is_combining (strip (str_lower s));
          s = sub_class [0x2019, 0x27, 0x60] s;
          s = sub_class [0x2D, 0x2013, 0x2014] s;
          s = sub_spaces s;
          s = sub_prefix s
      in strip s)"

section \<open>Canonical dictionaries and mappings (aliases\_helper.py)\<close>

text \<open>
  A Python \<open>dict\<close> keeps its keys in insertion order, and assigning to a key that is
  present keeps its place: an association list updated with \<open>AList.update\<close>. \<open>d[k]\<close>
  raises \<open>KeyError\<close> on a missing key.
\<close>

type_synonym ('k, 'v) dict = "('k \<times> 'v) list"

definition contains_key :: "('k, 'v) dict \<Rightarrow> 'k \<Rightarrow> bool" where
  "contains_key d k \<longleftrightarrow> map_of d k \<noteq> None"

definition getitem :: "('k, 'v) dict \<Rightarrow> 'k \<Rightarrow> py_error + 'v" where
  "getitem d k = (case map_of d k of None \<Rightarrow> Inl KeyError | Some v \<Rightarrow> Inr v)"

definition keys :: "('k, 'v) dict \<Rightarrow> 'k list" where
  "keys d = map fst d"

definition Trentino_Alto_Adige :: unicode where
  "Trentino_Alto_Adige = ascii ''Trentino-Alto Adige/S'' @ [0xFC] @ ascii ''dtirol''"

definition Valle_d_Aosta :: unicode where
  "Valle_d_Aosta = ascii ''Valle d'Aosta/Vall'' @ [0xE9] @ ascii ''e d'Aoste''"

definition Forli_Cesena :: unicode where
  "Forli_Cesena = ascii ''Forl'' @ [0xEC] @ ascii ''-Cesena''"

definition REGIONS :: "unicode list" where
  "REGIONS =
    [ascii ''Abruzzo'', ascii ''Basilicata'', ascii ''Calabria'', ascii ''Campania'',
     ascii ''Emilia-Romagna'', ascii ''Friuli-Venezia Giulia'', ascii ''Lazio'',
     ascii ''Liguria'', ascii ''Lombardia'', ascii ''Marche'', ascii ''Molise'',
     ascii ''Piemonte'', ascii ''Puglia'', ascii ''Sardegna'', ascii ''Sicilia'',
     ascii ''Toscana'', Trentino_Alto_Adige, ascii ''Umbria'', Valle_d_Aosta,
     ascii ''Veneto'']"

definition REGION_TO_PROVINCES :: "(unicode, unicode list) dict" where
  "REGION_TO_PROVINCES =
    [(ascii ''Abruzzo'',
        [ascii ''L'Aquila'', ascii ''Teramo'', ascii ''Pescara'', ascii ''Chieti'']),
     (ascii ''Basilicata'', [ascii ''Potenza'', ascii ''Matera'']),
     (ascii ''Calabria'',
        [ascii ''Catanzaro'', ascii ''Cosenza'', ascii ''Crotone'', ascii ''Reggio Calabria'',
         ascii ''Vibo Valentia'']),
     (ascii ''Campania'',
        [ascii ''Avellino'', ascii ''Benevento'', ascii ''Caserta'', ascii ''Napoli'',
         ascii ''Salerno'']),
     (ascii ''Emilia-Romagna'',
        [ascii ''Bologna'', ascii ''Ferrara'', Forli_Cesena, ascii ''Modena'', ascii ''Parma'',
         ascii ''Piacenza'', ascii ''Ravenna'', ascii ''Reggio nell'Emilia'', ascii ''Rimini'']),
     (ascii ''Friuli-Venezia Giulia'',
        [ascii ''Gorizia'', ascii ''Pordenone'', ascii ''Trieste'', ascii ''Udine'']),
     (ascii ''Lazio'',
        [ascii ''Frosinone'', ascii ''Latina'', ascii ''Rieti'', ascii ''Roma'',
         ascii ''Viterbo'']),
     (ascii ''Liguria'',
        [ascii ''Genova'', ascii ''Imperia'', ascii ''La Spezia'', ascii ''Savona'']),
     (ascii ''Lombardia'',
        [ascii ''Bergamo'', ascii ''Brescia'', ascii ''Como'', ascii ''Cremona'', ascii ''Lecco'',
         ascii ''Lodi'', ascii ''Mantova'', ascii ''Milano'', ascii ''Monza e della Brianza'',
         ascii ''Pavia'', ascii ''Sondrio'', ascii ''Varese'']),
     (ascii ''Marche'',
        [ascii ''Ancona'', ascii ''Ascoli Piceno'', ascii ''Fermo'', ascii ''Macerata'',
         ascii ''Pesaro e Urbino'']),
     (ascii ''Molise'', [ascii ''Campobasso'', ascii ''Isernia'']),
     (ascii ''Piemonte'',
        [ascii ''Alessandria'', ascii ''Asti'', ascii ''Biella'', ascii ''Cuneo'',
         ascii ''Novara'', ascii ''Torino'', ascii ''Verbano-Cusio-Ossola'', ascii ''Vercelli'']),
     (ascii ''Puglia'',
        [ascii ''Bari'', ascii ''Barletta-Andria-Trani'', ascii ''Brindisi'', ascii ''Foggia'',
         ascii ''Lecce'', ascii ''Taranto'']),
     (ascii ''Sardegna'',
        [ascii ''Cagliari'', ascii ''Nuoro'', ascii ''Oristano'', ascii ''Sassari'',
         ascii ''Sud Sardegna'']),
     (ascii ''Sicilia'',
        [ascii ''Agrigento'', ascii ''Caltanissetta'', ascii ''Catania'', ascii ''Enna'',
         ascii ''Messina'', ascii ''Palermo'', ascii ''Ragusa'', ascii ''Siracusa'',
         ascii ''Trapani'']),
     (ascii ''Toscana'',
        [ascii ''Arezzo'', ascii ''Firenze'', ascii ''Grosseto'', ascii ''Livorno'',
         ascii ''Lucca'', ascii ''Massa-Carrara'', ascii ''Pisa'', ascii ''Pistoia'',
         ascii ''Prato'', ascii ''Siena'']),
     (Trentino_Alto_Adige, [ascii ''Bolzano/Bozen'', ascii ''Trento'']),
     (ascii ''Umbria'', [ascii ''Perugia'', ascii ''Terni'']),
     (Valle_d_Aosta, [ascii ''Aosta'']),
     (ascii ''Veneto'',
        [ascii ''Belluno'', ascii ''Padova'', ascii ''Rovigo'', ascii ''Treviso'',
         ascii ''Venezia'', ascii ''Verona'', ascii ''Vicenza''])]"

text \<open>
  \<open>{v: k for k, vs in d.items() for v in vs}\<close>: the comprehension assigns in iteration
  order, a later assignment to the same key overwriting an earlier one.
\<close>

definition invert :: "('k, 'v list) dict \<Rightarrow> ('v, 'k) dict" where
  "invert d = foldl (\<lambda>acc (k, vs). foldl (\<lambda>acc v. AList.update v k acc) acc vs) [] d"

definition PROVINCE_TO_REGION :: "(unicode, unicode) dict" where
  "PROVINCE_TO_REGION = invert REGION_TO_PROVINCES"

definition MACRO_TO_REGIONS :: "(unicode, unicode list) dict" where
  "MACRO_TO_REGIONS =
    [(ascii ''Nord-ovest'',
        [ascii ''Piemonte'', Valle_d_Aosta, ascii ''Liguria'', ascii ''Lombardia'']),
     (ascii ''Nord-est'',
        [Trentino_Alto_Adige, ascii ''Veneto'', ascii ''Friuli-Venezia Giulia'',
         ascii ''Emilia-Romagna'']),
     (ascii ''Centro'',
        [ascii ''Toscana'', ascii ''Umbria'', ascii ''Marche'', ascii ''Lazio'']),
     (ascii ''Sud'',
        [ascii ''Abruzzo'', ascii ''Molise'', ascii ''Campania'', ascii ''Puglia'',
         ascii ''Basilicata'', ascii ''Calabria'']),
     (ascii ''Isole'', [ascii ''Sicilia'', ascii ''Sardegna''])]"

definition REGION_TO_MACRO :: "(unicode, unicode) dict" where
  "REGION_TO_MACRO = invert MACRO_TO_REGIONS"

definition METRO_CITIES :: "unicode list" where
  "METRO_CITIES =
    [ascii ''Torino'', ascii ''Milano'', ascii ''Venezia'', ascii ''Genova'', ascii ''Bologna'',
     ascii ''Firenze'', ascii ''Roma'', ascii ''Napoli'', ascii ''Bari'',
     ascii ''Reggio Calabria'', ascii ''Cagliari'', ascii ''Catania'', ascii ''Messina'',
     ascii ''Palermo'']"

definition CANONICAL_TO_ALIASES :: "(unicode, unicode list) dict" where
  "CANONICAL_TO_ALIASES =
    [(ascii ''Reggio nell'Emilia'', [ascii ''reggio emilia'']),
     (ascii ''Reggio Calabria'', [ascii ''reggio di calabria'']),
     (Forli_Cesena,
        [ascii ''forli cesena'', ascii ''forli-cesena'',
         ascii ''forl'' @ [0xEC] @ ascii '' cesena'']),
     (ascii ''La Spezia'', [ascii ''spezia'']),
     (ascii ''Massa-Carrara'', [ascii ''massa carrara'', ascii ''massa-carrara'']),
     (ascii ''Monza e della Brianza'', [ascii ''monza e brianza'', ascii ''monza brianza'']),
     (ascii ''Bolzano/Bozen'',
        [ascii ''bolzano'', ascii ''bozen'', ascii ''bolzano-bozen'', ascii ''bozen-bolzano'']),
     (ascii ''Barletta-Andria-Trani'',
        [ascii ''barletta andria trani'', ascii ''bat'', ascii ''b.a.t.'']),
     (ascii ''Pesaro e Urbino'', [ascii ''pesaro urbino'']),
     (Valle_d_Aosta,
        [ascii ''valle d aosta'', ascii ''valle d'aosta'',
         ascii ''valle d'' @ [0x2019] @ ascii ''aosta'', ascii ''vallee daoste'']),
     (ascii ''Friuli-Venezia Giulia'', [ascii ''friuli venezia giulia'']),
     (Trentino_Alto_Adige, [ascii ''trentino alto adige'', ascii ''trentino-alto adige''])]"

section \<open>The sequence matcher of the Python library (difflib)\<close>

text \<open>
  \<open>match_from_candidates\<close> calls \<open>difflib.get_close_matches\<close>, which compares the word
  with every candidate through a \<open>SequenceMatcher\<close> whose first sequence \<open>a\<close> is the candidate
  and whose second sequence \<open>b\<close> is the word. The functions below follow the CPython
  sources of that class, with \<open>isjunk = None\<close> and \<open>autojunk = True\<close>, the defaults that
  \<open>get_close_matches\<close> uses.

  \<open>chain_b\<close> is the index \<open>b2j\<close>: for an element, the increasing list of its positions in
  \<open>b\<close>; when \<open>b\<close> has 200 elements or more, an element that fills more than one hundredth
  of it (plus one) is popular and loses its entry.
\<close>

definition chain_b :: "unicode \<Rightarrow> int \<Rightarrow> nat list" where
  "chain_b b elt =
     (let idxs = filter (\<lambda>j. b ! j = elt) [0..<length b]; n = length b
      in if n \<ge> 200 \<and> length idxs > n div 100 + 1 then [] else idxs)"

type_synonym block = "nat \<times> nat \<times> nat"

text \<open>
  The inner loop of \<open>find_longest_match\<close> for one position \<open>i\<close> of \<open>a\<close>. \<open>j2len\<close> maps
  \<open>j\<close> to the length of the longest match ending with \<open>a[i-1]\<close>, \<open>b[j]\<close>; a key that is
  absent reads as 0, and so does the key \<open>-1\<close> that \<open>j = 0\<close> asks for.
\<close>

fun flm_row ::
  "nat \<Rightarrow> nat \<Rightarrow> nat \<Rightarrow> (nat \<Rightarrow> nat) \<Rightarrow> nat list \<Rightarrow> (nat \<Rightarrow> nat) \<times> block \<Rightarrow> (nat \<Rightarrow> nat) \<times> block"
where
  "flm_row blo bhi i j2len [] st = st"
| "flm_row blo bhi i j2len (j # js) (newj2len, besti, bestj, bestsize) =
     (if j < blo then flm_row blo bhi i j2len js (newj2len, besti, bestj, bestsize)
      else if j \<ge> bhi then (newj2len, besti, bestj, bestsize)
      else
        (let k = (if j = 0 then 0 else j2len (j - 1)) + 1;
             newj2len = newj2len(j := k)
         in if k > bestsize
            then flm_row blo bhi i j2len js (newj2len, i + 1 - k, j + 1 - k, k)
            else flm_row blo bhi i j2len js (newj2len, besti, bestj, bestsize)))"

fun flm_rows ::
  "unicode \<Rightarrow> (int \<Rightarrow> nat list) \<Rightarrow> nat \<Rightarrow> nat \<Rightarrow> nat list \<Rightarrow> (nat \<Rightarrow> nat) \<Rightarrow> block \<Rightarrow> block"
where
  "flm_rows a b2j blo bhi [] j2len best = best"
| "flm_rows a b2j blo bhi (i # is) j2len best =
     (case flm_row blo bhi i j2len (b2j (a ! i)) (\<lambda>j. 0, best) of
        (newj2len, best') \<Rightarrow> flm_rows a b2j blo bhi is newj2len best')"

text \<open>
  The four \<open>while\<close> loops that extend the best block: first over elements that are not
  junk, then over junk (\<open>junk\<close> tells which), to the left and to the right.
\<close>

function extend_left ::
  "unicode \<Rightarrow> unicode \<Rightarrow> (int \<Rightarrow> bool) \<Rightarrow> bool \<Rightarrow> nat \<Rightarrow> nat \<Rightarrow> block \<Rightarrow> block"
where
  "extend_left a b isbjunk junk alo blo (besti, bestj, bestsize) =
     (if besti > alo \<and> bestj > blo \<and> isbjunk (b ! (bestj - 1)) = junk
         \<and> a ! (besti - 1) = b ! (bestj - 1)
      then extend_left a b isbjunk junk alo blo (besti - 1, bestj - 1, bestsize + 1)
      else (besti, bestj, bestsize))"
  by pat_completeness auto
termination
  by (relation "measure (\<lambda>(a, b, isbjunk, junk, alo, blo, besti, bestj, bestsize). besti)") auto

function extend_right ::
  "unicode \<Rightarrow> unicode \<Rightarrow> (int \<Rightarrow> bool) \<Rightarrow> bool \<Rightarrow> nat \<Rightarrow> nat \<Rightarrow> block \<Rightarrow> block"
where
  "extend_right a b isbjunk junk ahi bhi (besti, bestj, bestsize) =
     (if besti + bestsize < ahi \<and> bestj + bestsize < bhi \<and> isbjunk (b ! (bestj + bestsize)) = junk
         \<and> a ! (besti + bestsize) = b ! (bestj + bestsize)
      then extend_right a b isbjunk junk ahi bhi (besti, bestj, bestsize + 1)
      else (besti, bestj, bestsize))"
  by pat_completeness auto
termination
  by (relation "measure (\<lambda>(a, b, isbjunk, junk, ahi, bhi, besti, bestj, bestsize).
        ahi - (besti + bestsize))") auto

definition find_longest_match :: "unicode \<Rightarrow> unicode \<Rightarrow> nat \<Rightarrow> nat \<Rightarrow> nat \<Rightarrow> nat \<Rightarrow> block" where
  "find_longest_match a b alo ahi blo bhi =
     (let b2j = chain_b b;
          isbjunk = (\<lambda>c. False);
          best = flm_rows a b2j blo bhi [alo..<ahi] (\<lambda>j. 0) (alo, blo, 0);
          best = extend_left a b isbjunk False alo blo best;
          best = extend_right a b isbjunk False ahi bhi best;
          best = extend_left a b isbjunk True alo blo best;
          best = extend_right a b isbjunk True ahi bhi best
      in best)"

text \<open>
  The block that \<open>find_longest_match\<close> returns lies inside the window of \<open>a\<close> it was asked
  for. The loop of \<open>get_matching_blocks\<close> terminates because of it.
\<close>

lemma flm_row_bounds:
  assumes "\<forall>j. j2len j \<le> i - alo" "alo \<le> i"
    and "\<forall>j. new j \<le> Suc i - alo" "alo \<le> bi" "bi + bs \<le> Suc i"
    and "flm_row blo bhi i j2len js (new, bi, bj, bs) = (new', bi', bj', bs')"
  shows "(\<forall>j. new' j \<le> Suc i - alo) \<and> alo \<le> bi' \<and> bi' + bs' \<le> Suc i"
  using assms(3-)
proof (induction js arbitrary: new bi bj bs)
  case Nil
  then show ?case by simp
next
  case (Cons j js)
  define k where "k = (if j = 0 then 0 else j2len (j - 1)) + 1"
  have k: "k \<le> Suc i - alo" "0 < k"
    using assms(1,2) by (auto simp: k_def Suc_diff_le)
  show ?case
  proof (cases "j < blo")
    case True
    with Cons show ?thesis by simp
  next
    case nlo: False
    show ?thesis
    proof (cases "j \<ge> bhi")
      case True
      with nlo Cons.prems show ?thesis by simp
    next
      case False
      have new: "\<forall>x. (new(j := k)) x \<le> Suc i - alo"
        using Cons.prems(1) k by simp
      show ?thesis
      proof (cases "k > bs")
        case True
        have eq: "flm_row blo bhi i j2len js (new(j := k), i + 1 - k, j + 1 - k, k) = (new', bi', bj', bs')"
          using Cons.prems(4) nlo False True by (simp add: k_def Let_def)
        show ?thesis
          by (rule Cons.IH[OF new _ _ eq]) (use k assms(2) in auto)
      next
        case nb: False
        have eq: "flm_row blo bhi i j2len js (new(j := k), bi, bj, bs) = (new', bi', bj', bs')"
          using Cons.prems(4) nlo False nb by (simp add: k_def Let_def)
        show ?thesis
          by (rule Cons.IH[OF new Cons.prems(2,3) eq])
      qed
    qed
  qed
qed

lemma flm_rows_bounds:
  assumes "\<forall>j. j2len j \<le> i0 - alo" "alo \<le> i0" "alo \<le> bi" "bi + bs \<le> i0"
    and "flm_rows a b2j blo bhi [i0..<ahi] j2len (bi, bj, bs) = (bi', bj', bs')"
  shows "alo \<le> bi' \<and> bi' + bs' \<le> max i0 ahi"
  using assms
proof (induction "ahi - i0" arbitrary: i0 j2len bi bj bs)
  case 0
  then show ?case by simp
next
  case (Suc n)
  then have lt: "i0 < ahi" by simp
  obtain new bi1 bj1 bs1 where
    row: "flm_row blo bhi i0 j2len (b2j (a ! i0)) (\<lambda>j. 0, bi, bj, bs) = (new, bi1, bj1, bs1)"
    by (metis prod_cases4)
  have r: "(\<forall>j. new j \<le> Suc i0 - alo) \<and> alo \<le> bi1 \<and> bi1 + bs1 \<le> Suc i0"
    by (rule flm_row_bounds[OF Suc.prems(1,2) _ Suc.prems(3) _ row]) (use Suc.prems(4) in auto)
  have eq: "flm_rows a b2j blo bhi [Suc i0..<ahi] new (bi1, bj1, bs1) = (bi', bj', bs')"
    using Suc.prems(5) lt row by (simp add: upt_conv_Cons)
  have "alo \<le> bi' \<and> bi' + bs' \<le> max (Suc i0) ahi"
    by (rule Suc.hyps(1)[OF _ _ _ _ _ eq]) (use Suc.hyps(2) Suc.prems(2) r in auto)
  with lt show ?case by auto
qed

lemma extend_left_bounds:
  "extend_left a b isbjunk junk alo blo (bi, bj, bs) = (bi', bj', bs') \<Longrightarrow> alo \<le> bi
     \<Longrightarrow> alo \<le> bi' \<and> bi' + bs' = bi + bs"
proof (induction a b isbjunk junk alo blo "(bi, bj, bs)" arbitrary: bi bj bs rule: extend_left.induct)
  case (1 a b isbjunk junk alo blo besti bestj bestsize)
  show ?case
  proof (cases "besti > alo \<and> bestj > blo \<and> isbjunk (b ! (bestj - 1)) = junk
         \<and> a ! (besti - 1) = b ! (bestj - 1)")
    case True
    then have "extend_left a b isbjunk junk alo blo (besti - 1, bestj - 1, bestsize + 1) = (bi', bj', bs')"
      using "1.prems"(1) by (simp del: extend_left.simps add: extend_left.simps[of a b isbjunk junk alo blo besti])
    from "1.hyps"[OF True this] True show ?thesis by auto
  next
    case False
    then show ?thesis using "1.prems" by auto
  qed
qed

lemma extend_right_bounds:
  "extend_right a b isbjunk junk ahi bhi (bi, bj, bs) = (bi', bj', bs') \<Longrightarrow>
     bi' = bi \<and> bs \<le> bs' \<and> bi' + bs' \<le> max (bi + bs) ahi"
proof (induction a b isbjunk junk ahi bhi "(bi, bj, bs)" arbitrary: bi bj bs rule: extend_right.induct)
  case (1 a b isbjunk junk ahi bhi besti bestj bestsize)
  show ?case
  proof (cases "besti + bestsize < ahi \<and> bestj + bestsize < bhi \<and> isbjunk (b ! (bestj + bestsize)) = junk
         \<and> a ! (besti + bestsize) = b ! (bestj + bestsize)")
    case True
    then have "extend_right a b isbjunk junk ahi bhi (besti, bestj, bestsize + 1) = (bi', bj', bs')"
      using "1.prems"(1) by (simp del: extend_right.simps add: extend_right.simps[of a b isbjunk junk ahi bhi besti])
    from "1.hyps"[OF True this] True show ?thesis by auto
  next
    case False
    then show ?thesis using "1.prems" by auto
  qed
qed

lemma find_longest_match_bounds:
  assumes "find_longest_match a b alo ahi blo bhi = (i, j, k)"
  shows "alo \<le> i \<and> i + k \<le> max alo ahi"
proof -
  obtain i0 j0 k0 where r0: "flm_rows a (chain_b b) blo bhi [alo..<ahi] (\<lambda>j. 0) (alo, blo, 0) = (i0, j0, k0)"
    by (metis prod_cases3)
  obtain i1 j1 k1 where r1: "extend_left a b (\<lambda>c. False) False alo blo (i0, j0, k0) = (i1, j1, k1)"
    by (metis prod_cases3)
  obtain i2 j2 k2 where r2: "extend_right a b (\<lambda>c. False) False ahi bhi (i1, j1, k1) = (i2, j2, k2)"
    by (metis prod_cases3)
  obtain i3 j3 k3 where r3: "extend_left a b (\<lambda>c. False) True alo blo (i2, j2, k2) = (i3, j3, k3)"
    by (metis prod_cases3)
  have r4: "extend_right a b (\<lambda>c. False) True ahi bhi (i3, j3, k3) = (i, j, k)"
    using assms r0 r1 r2 r3 by (simp add: find_longest_match_def Let_def)
  have b0: "alo \<le> i0 \<and> i0 + k0 \<le> max alo ahi"
    by (rule flm_rows_bounds[OF _ _ _ _ r0]) auto
  have b1: "alo \<le> i1 \<and> i1 + k1 = i0 + k0"
    using extend_left_bounds[OF r1] b0 by simp
  have b2: "i2 = i1 \<and> k1 \<le> k2 \<and> i2 + k2 \<le> max (i1 + k1) ahi"
    using extend_right_bounds[OF r2] .
  have b3: "alo \<le> i3 \<and> i3 + k3 = i2 + k2"
    using extend_left_bounds[OF r3] b1 b2 by simp
  have b4: "i = i3 \<and> k3 \<le> k \<and> i + k \<le> max (i3 + k3) ahi"
    using extend_right_bounds[OF r4] .
  from b0 b1 b2 b3 b4 show ?thesis by auto
qed

text \<open>
  \<open>get_matching_blocks\<close>: the loop over the queue of windows still to be searched. Python
  pops from the end of the list, so the head of \<open>queue\<close> is the window appended last.
\<close>

function gmb_loop ::
  "unicode \<Rightarrow> unicode \<Rightarrow> (nat \<times> nat \<times> nat \<times> nat) list \<Rightarrow> block list \<Rightarrow> block list"
where
  "gmb_loop a b [] matching_blocks = matching_blocks"
| "gmb_loop a b ((alo, ahi, blo, bhi) # queue) matching_blocks =
     (case find_longest_match a b alo ahi blo bhi of
        (i, j, k) \<Rightarrow>
          if k \<noteq> 0
          then gmb_loop a b
                 ((if i + k < ahi \<and> j + k < bhi then [(i + k, ahi, j + k, bhi)] else [])
                  @ (if alo < i \<and> blo < j then [(alo, i, blo, j)] else []) @ queue)
                 (matching_blocks @ [(i, j, k)])
          else gmb_loop a b queue matching_blocks)"
  by pat_completeness auto
termination
proof (relation "measure (\<lambda>(a, b, queue, blocks).
          sum_list (map (\<lambda>(alo, ahi, blo, bhi). 2 * (ahi - alo) + 1) queue))", goal_cases)
  case 1
  show ?case by simp
next
  case 2
  then show ?case
    by (auto dest!: find_longest_match_bounds[OF sym])
next
  case 3
  then show ?case by simp
qed

text \<open>The rest of \<open>get_matching_blocks\<close>: sort, merge adjacent blocks, add the sentinel.\<close>

fun merge_adjacent :: "block \<Rightarrow> block list \<Rightarrow> block list" where
  "merge_adjacent (i1, j1, k1) [] = (if k1 \<noteq> 0 then [(i1, j1, k1)] else [])"
| "merge_adjacent (i1, j1, k1) ((i2, j2, k2) # blocks) =
     (if i1 + k1 = i2 \<and> j1 + k1 = j2 then merge_adjacent (i1, j1, k1 + k2) blocks
      else (if k1 \<noteq> 0 then [(i1, j1, k1)] else []) @ merge_adjacent (i2, j2, k2) blocks)"

definition get_matching_blocks :: "unicode \<Rightarrow> unicode \<Rightarrow> block list" where
  "get_matching_blocks a b =
     (let la = length a; lb = length b;
          matching_blocks = sort (gmb_loop a b [(0, la, 0, lb)] [])
      in merge_adjacent (0, 0, 0) matching_blocks @ [(la, lb, 0)])"

text \<open>
  \<open>_calculate_ratio\<close> returns the float \<open>2.0 * matches / length\<close>, which the callers only
  compare: with the cutoff and with each other. The quotient is modelled by the exact
  rational. Floating-point division rounds the exact quotient to the nearest double, so the
  comparisons agree with the exact ones as long as two different quotients, or a quotient and
  the cutoff \<open>0.90\<close>, are further apart than the spacing of doubles below 1, which holds for
  texts shorter than some ten million characters.
\<close>

definition calculate_ratio :: "nat \<Rightarrow> nat \<Rightarrow> rat" where
  "calculate_ratio matches len = (if len \<noteq> 0 then 2 * of_nat matches / of_nat len else 1)"

definition ratio :: "unicode \<Rightarrow> unicode \<Rightarrow> rat" where
  "ratio a b =
     calculate_ratio (sum_list (map (\<lambda>(i, j, k). k) (get_matching_blocks a b)))
       (length a + length b)"

text \<open>
  \<open>quick_ratio\<close>: \<open>fullbcount\<close> counts the elements of \<open>b\<close>, \<open>avail\<close> how many of each are
  still unmatched while \<open>a\<close> is traversed.
\<close>

fun quick_ratio_loop :: "unicode \<Rightarrow> unicode \<Rightarrow> (int \<rightharpoonup> int) \<Rightarrow> nat \<Rightarrow> nat" where
  "quick_ratio_loop b [] avail matches = matches"
| "quick_ratio_loop b (elt # as) avail matches =
     (let numb = (case avail elt of Some n \<Rightarrow> n | None \<Rightarrow> int (count_list b elt))
      in quick_ratio_loop b as (avail(elt \<mapsto> numb - 1))
           (if numb > 0 then matches + 1 else matches))"

definition quick_ratio :: "unicode \<Rightarrow> unicode \<Rightarrow> rat" where
  "quick_ratio a b =
     calculate_ratio (quick_ratio_loop b a Map.empty 0) (length a + length b)"

definition real_quick_ratio :: "unicode \<Rightarrow> unicode \<Rightarrow> rat" where
  "real_quick_ratio a b =
     (let la = length a; lb = length b in calculate_ratio (min la lb) (la + lb))"

text \<open>
  \<open>heapq.nlargest(n, xs)\<close> is \<open>sorted(xs, reverse=True)[:n]\<close>. The elements are pairs of a
  ratio and a text, compared by ratio first and by the text (code point by code point) on
  equal ratios.
\<close>

definition nlargest :: "nat \<Rightarrow> ('a :: linorder) list \<Rightarrow> 'a list" where
  "nlargest n xs = take n (rev (sort xs))"

text \<open>
  The test of \<open>get_close_matches\<close> on one candidate \<open>x\<close>:
  \<open>s.real_quick_ratio() >= cutoff and s.quick_ratio() >= cutoff and s.ratio() >= cutoff\<close>,
  where \<open>and\<close> does not evaluate its right side when the left side is false.
\<close>

definition close_enough :: "unicode \<Rightarrow> rat \<Rightarrow> unicode \<Rightarrow> bool" where
  "close_enough word cutoff x \<longleftrightarrow>
     (if real_quick_ratio x word \<ge> cutoff
      then if quick_ratio x word \<ge> cutoff then ratio x word \<ge> cutoff else False
      else False)"

text \<open>
  \<open>get_close_matches(word, possibilities, n, cutoff)\<close>. The messages of the two errors
  end with the offending argument, which is left out here.
\<close>

definition get_close_matches ::
  "unicode \<Rightarrow> unicode list \<Rightarrow> nat \<Rightarrow> rat \<Rightarrow> py_error + unicode list" where
  "get_close_matches word possibilities n cutoff =
     (if \<not> n > 0 then Inl (ValueError (ascii ''n must be > 0''))
      else if \<not> (0 \<le> cutoff \<and> cutoff \<le> 1)
      then Inl (ValueError (ascii ''cutoff must be in [0.0, 1.0]''))
      else
        (let result =
               map (\<lambda>x. (ratio x word, x)) (filter (close_enough word cutoff) possibilities)
         in Inr (map snd (nlargest n result))))"

section \<open>The standardizer (standardize\_italy\_admin\_names.py)\<close>

definition match_from_candidates :: "unicode \<Rightarrow> unicode list \<Rightarrow> py_error + unicode option" where
  "match_from_candidates token candidates =
     (case get_close_matches token candidates 1 (9 / 10) of
        Inl e \<Rightarrow> Inl e
      | Inr hits \<Rightarrow> Inr (if hits \<noteq> [] then Some (hd hits) else None))"

subsection \<open>The alias map\<close>

definition ALL_REGIONS :: "unicode list" where
  "ALL_REGIONS = keys REGION_TO_PROVINCES"

definition ALL_PROVINCES :: "unicode list" where
  "ALL_PROVINCES = sort (remdups (concat (map snd REGION_TO_PROVINCES)))"

definition MACROS :: "unicode list" where
  "MACROS = sort (keys MACRO_TO_REGIONS)"

text \<open>
  The source returns a set; it is listed here in the order it is written. The caller
  assigns the same province to every element, so the order in which a set is iterated does
  not show in the alias map.
\<close>

definition auto_variants_for_province :: "unicode \<Rightarrow> unicode list" where
  "auto_variants_for_province name =
     (let b = base_normalize name;
          out = [b, ascii ''provincia di '' @ b, ascii ''prov di '' @ b]
      in if name \<in> set METRO_CITIES then out @ [ascii ''citta metropolitana di '' @ b]
         else out)"

definition build_alias_map :: "(unicode, unicode) dict" where
  "build_alias_map =
     (let aliases = [];
          aliases = foldl (\<lambda>d r. AList.update (base_normalize r) r d) aliases ALL_REGIONS;
          aliases = foldl (\<lambda>d p. AList.update (base_normalize p) p d) aliases ALL_PROVINCES;
          aliases = foldl (\<lambda>d m. AList.update (base_normalize m) m d) aliases MACROS;
          aliases =
            foldl (\<lambda>d p. foldl (\<lambda>d a. AList.update (base_normalize a) p d) d
                            (auto_variants_for_province p))
              aliases ALL_PROVINCES;
          aliases =
            foldl (\<lambda>d (canonical, variants).
                     foldl (\<lambda>d a. AList.update (base_normalize a) canonical d) d variants)
              aliases CANONICAL_TO_ALIASES
      in aliases)"

definition ALIASES :: "(unicode, unicode) dict" where
  "ALIASES = build_alias_map"

text \<open>\<open>{base_normalize(k): k for k in ks}\<close>\<close>

definition norm_index :: "unicode list \<Rightarrow> (unicode, unicode) dict" where
  "norm_index ks = foldl (\<lambda>d k. AList.update (base_normalize k) k d) [] ks"

definition NORM_PROV :: "(unicode, unicode) dict" where
  "NORM_PROV = norm_index (keys PROVINCE_TO_REGION)"

definition NORM_REG :: "(unicode, unicode) dict" where
  "NORM_REG = norm_index REGIONS"

definition NORM_MAC :: "(unicode, unicode) dict" where
  "NORM_MAC = norm_index MACROS"

definition NORM_ALIAS :: "(unicode, unicode) dict" where
  "NORM_ALIAS = ALIASES"

subsection \<open>Core standardizer\<close>

record territory =
  level :: unicode
  province_std :: "unicode option"
  region_std :: "unicode option"
  macro_std :: "unicode option"

text \<open>\<open>sub in s\<close> for texts: \<open>sub\<close> occurs in \<open>s\<close> as a contiguous piece.\<close>

fun contains :: "unicode \<Rightarrow> unicode \<Rightarrow> bool" where
  "contains sub [] \<longleftrightarrow> sub = []"
| "contains sub (c # cs) \<longleftrightarrow> take (length sub) (c # cs) = sub \<or> contains sub cs"

text \<open>
  The body of \<open>standardize_territory\<close> is a chain of rules, each of which either returns
  or falls through to the next. A rule is a value \<open>py_error + territory option\<close>: \<open>Inl\<close> an
  exception raised inside it, \<open>Inr (Some t)\<close> its \<open>return t\<close>, \<open>Inr None\<close> falling through.
\<close>

text \<open>\<open>if m:\<close> for \<open>m\<close> a text or \<open>None\<close>: \<open>None\<close> and the empty text are false.\<close>

definition truthy :: "unicode option \<Rightarrow> bool" where
  "truthy m = (case m of None \<Rightarrow> False | Some x \<Rightarrow> x \<noteq> [])"

definition province_record :: "unicode \<Rightarrow> py_error + territory option" where
  "province_record p =
     (case getitem PROVINCE_TO_REGION p of
        Inl e \<Rightarrow> Inl e
      | Inr r \<Rightarrow>
          (case getitem REGION_TO_MACRO r of
             Inl e \<Rightarrow> Inl e
           | Inr m \<Rightarrow>
               Inr (Some \<lparr>level = ascii ''province'', province_std = Some p,
                          region_std = Some r, macro_std = Some m\<rparr>)))"

definition region_record :: "unicode \<Rightarrow> py_error + territory option" where
  "region_record r =
     (case getitem REGION_TO_MACRO r of
        Inl e \<Rightarrow> Inl e
      | Inr m \<Rightarrow>
          Inr (Some \<lparr>level = ascii ''region'', province_std = None, region_std = Some r,
                     macro_std = Some m\<rparr>))"

definition macro_record :: "unicode \<Rightarrow> py_error + territory option" where
  "macro_record m =
     Inr (Some \<lparr>level = ascii ''macro'', province_std = None, region_std = None,
                macro_std = Some m\<rparr>)"

definition unknown_record :: territory where
  "unknown_record =
     \<lparr>level = ascii ''unknown'', province_std = None, region_std = None, macro_std = None\<rparr>"

text \<open>1) Alias pass (fast exact on normalized)\<close>

definition alias_pass :: "unicode \<Rightarrow> py_error + territory option" where
  "alias_pass tok =
     (if contains_key NORM_ALIAS tok then
        (case getitem NORM_ALIAS tok of
           Inl e \<Rightarrow> Inl e
         | Inr canonical \<Rightarrow>
             if contains_key PROVINCE_TO_REGION canonical then province_record canonical
             else if canonical \<in> set REGIONS then region_record canonical
             else if canonical \<in> set MACROS then macro_record canonical
             else Inr None)
      else Inr None)"

text \<open>2) Direct exact on normalized\<close>

definition exact_pass :: "unicode \<Rightarrow> py_error + territory option" where
  "exact_pass tok =
     (if contains_key NORM_PROV tok then
        (case getitem NORM_PROV tok of Inl e \<Rightarrow> Inl e | Inr p \<Rightarrow> province_record p)
      else if contains_key NORM_REG tok then
        (case getitem NORM_REG tok of Inl e \<Rightarrow> Inl e | Inr r \<Rightarrow> region_record r)
      else if contains_key NORM_MAC tok then
        (case getitem NORM_MAC tok of Inl e \<Rightarrow> Inl e | Inr m \<Rightarrow> macro_record m)
      else Inr None)"

text \<open>3) Fallback close-match\<close>

definition fuzzy_pass :: "unicode \<Rightarrow> py_error + territory option" where
  "fuzzy_pass tok =
     (case match_from_candidates tok (keys NORM_PROV) of
        Inl e \<Rightarrow> Inl e
      | Inr m \<Rightarrow>
          if truthy m then
            (case getitem NORM_PROV (the m) of Inl e \<Rightarrow> Inl e | Inr p \<Rightarrow> province_record p)
          else
            (case match_from_candidates tok (keys NORM_REG) of
               Inl e \<Rightarrow> Inl e
             | Inr m \<Rightarrow>
                 if truthy m then
                   (case getitem NORM_REG (the m) of
                      Inl e \<Rightarrow> Inl e | Inr r \<Rightarrow> region_record r)
                 else
                   (case match_from_candidates tok (keys NORM_MAC) of
                      Inl e \<Rightarrow> Inl e
                    | Inr m \<Rightarrow>
                        if truthy m then
                          (case getitem NORM_MAC (the m) of
                             Inl e \<Rightarrow> Inl e | Inr c \<Rightarrow> macro_record c)
                        else Inr None)))"

text \<open>4) Last-resort heuristic (Aosta variants), then the unknown record.\<close>

definition standardize_token :: "unicode \<Rightarrow> py_error + territory" where
  "standardize_token tok =
     (case alias_pass tok of
        Inl e \<Rightarrow> Inl e
      | Inr (Some t) \<Rightarrow> Inr t
      | Inr None \<Rightarrow>
          (case exact_pass tok of
             Inl e \<Rightarrow> Inl e
           | Inr (Some t) \<Rightarrow> Inr t
           | Inr None \<Rightarrow>
               (case fuzzy_pass tok of
                  Inl e \<Rightarrow> Inl e
                | Inr (Some t) \<Rightarrow> Inr t
                | Inr None \<Rightarrow>
                    if contains (ascii ''aosta'') tok
                    then Inr \<lparr>level = ascii ''region'', province_std = None,
                              region_std = Some Valle_d_Aosta,
                              macro_std = Some (ascii ''Nord-ovest'')\<rparr>
                    else Inr unknown_record)))"

text \<open>The argument is \<open>None\<close> or a text; \<open>tok\<close> is its normal form.\<close>

definition standardize_territory :: "unicode option \<Rightarrow> py_error + territory" where
  "standardize_territory raw =
     (case raw of
        None \<Rightarrow> Inr unknown_record
      | Some s \<Rightarrow> standardize_token (base_normalize s))"

section \<open>Coverage (completeness.py)\<close>

definition territory_col_for :: "unicode \<Rightarrow> py_error + unicode" where
  "territory_col_for lvl =
     (if lvl \<notin> {ascii ''province'', ascii ''region''}
      then Inl (ValueError (ascii ''level must be 'province' or 'region'' @ [0x27]))
      else Inr (if lvl = ascii ''province'' then ascii ''province_std'' else ascii ''region_std''))"

text \<open>
  \<open>compute_coverage\<close> and \<open>list_missing_territories\<close> both begin with
  \<open>territory_col = _territory_col_for(level)\<close>, before they touch the data frame, and an
  exception raised there leaves the function. What they compute afterwards with pandas
  is the parameter \<open>body\<close>, a function of the column name and of the arguments.
\<close>

definition compute_coverage ::
  "(unicode \<Rightarrow> 'df \<Rightarrow> unicode \<Rightarrow> 'f \<Rightarrow> unicode \<Rightarrow> py_error + 'r) \<Rightarrow>
     'df \<Rightarrow> unicode \<Rightarrow> 'f \<Rightarrow> unicode \<Rightarrow> py_error + 'r" where
  "compute_coverage body df lvl filters expected =
     (case territory_col_for lvl of
        Inl e \<Rightarrow> Inl e
      | Inr territory_col \<Rightarrow> body territory_col df lvl filters expected)"

definition list_missing_territories ::
  "(unicode \<Rightarrow> 'df \<Rightarrow> unicode \<Rightarrow> int \<Rightarrow> unicode \<Rightarrow> 'f \<Rightarrow> unicode \<Rightarrow> py_error + 'r) \<Rightarrow>
     'df \<Rightarrow> unicode \<Rightarrow> int \<Rightarrow> unicode \<Rightarrow> 'f \<Rightarrow> unicode \<Rightarrow> py_error + 'r" where
  "list_missing_territories body df variable year lvl filters expected =
     (case territory_col_for lvl of
        Inl e \<Rightarrow> Inl e
      | Inr territory_col \<Rightarrow> body territory_col df variable year lvl filters expected)"

section \<open>Verification\<close>

subsection \<open>Dictionaries built by assignment\<close>

lemma contains_key_iff: "contains_key d k \<longleftrightarrow> k \<in> set (keys d)"
  by (simp add: contains_key_def keys_def map_of_eq_None_iff)

lemma getitem_iff: "getitem d k = Inr v \<longleftrightarrow> map_of d k = Some v"
  by (simp add: getitem_def split: option.splits)

lemma getitem_contains:
  assumes "contains_key d k"
  shows "\<exists>v. getitem d k = Inr v \<and> (k, v) \<in> set d"
proof -
  from assms obtain v where "map_of d k = Some v"
    by (auto simp: contains_key_def)
  then show ?thesis
    by (auto simp: getitem_iff dest: map_of_SomeD)
qed

text \<open>A loop of assignments \<open>d[f x] = g x\<close>, seen from one key.\<close>

lemma assign_keys:
  "set (keys (foldl (\<lambda>d x. AList.update (f x) (g x) d) d0 xs)) = set (keys d0) \<union> f ` set xs"
  by (induction xs arbitrary: d0) (auto simp: keys_def dom_update)

lemma assign_values:
  "(k, v) \<in> set (foldl (\<lambda>d x. AList.update (f x) (g x) d) d0 xs) \<Longrightarrow>
     (k, v) \<in> set d0 \<or> (\<exists>x \<in> set xs. k = f x \<and> v = g x)"
proof (induction xs arbitrary: d0)
  case Nil
  then show ?case by simp
next
  case (Cons x xs)
  from Cons.IH[of "AList.update (f x) (g x) d0"] Cons.prems
  have "(k, v) \<in> set (AList.update (f x) (g x) d0) \<or> (\<exists>y \<in> set xs. k = f y \<and> v = g y)"
    by simp
  moreover have "(k, v) \<in> set (AList.update (f x) (g x) d0) \<Longrightarrow> (k, v) \<in> set d0 \<or> (k = f x \<and> v = g x)"
    by (induction d0) (auto split: if_splits)
  ultimately show ?case by auto
qed

lemma assign_last:
  assumes "\<forall>x \<in> set xs. f x = k \<longrightarrow> g x = v"
    and "k \<in> f ` set xs \<or> map_of d0 k = Some v"
  shows "map_of (foldl (\<lambda>d x. AList.update (f x) (g x) d) d0 xs) k = Some v"
  using assms
proof (induction xs arbitrary: d0)
  case Nil
  then show ?case by simp
next
  case (Cons x xs)
  have "k \<in> f ` set xs \<or> map_of (AList.update (f x) (g x) d0) k = Some v"
    using Cons.prems by (auto simp: update_conv')
  with Cons.IH[of "AList.update (f x) (g x) d0"] Cons.prems(1) show ?case by simp
qed

lemma assign_other:
  assumes "k \<notin> f ` set xs"
  shows "map_of (foldl (\<lambda>d x. AList.update (f x) (g x) d) d0 xs) k = map_of d0 k"
  using assms by (induction xs arbitrary: d0) (auto simp: update_conv')

text \<open>Two nested loops assign like one loop over the pairs.\<close>

lemma assign_nested:
  "foldl (\<lambda>d x. foldl (\<lambda>d a. AList.update (kf a) (vf x) d) d (vs x)) d0 xs =
   foldl (\<lambda>d (a, x). AList.update (kf a) (vf x) d) d0
     (concat (map (\<lambda>x. map (\<lambda>a. (a, x)) (vs x)) xs))"
proof (induction xs arbitrary: d0)
  case Nil
  then show ?case by simp
next
  case (Cons x xs)
  have inner: "foldl (\<lambda>d (a, x). AList.update (kf a) (vf x) d) d (map (\<lambda>a. (a, x)) ys) =
      foldl (\<lambda>d a. AList.update (kf a) (vf x) d) d ys" for d ys
    by (induction ys arbitrary: d) simp_all
  show ?case by (simp add: Cons.IH inner)
qed


lemma invert_flat:
  "invert d = foldl (\<lambda>acc (v, x). AList.update v (fst x) acc) []
     (concat (map (\<lambda>x. map (\<lambda>v. (v, x)) (snd x)) d))"
proof -
  have "(\<lambda>acc (k, vs). foldl (\<lambda>acc v. AList.update v k acc) acc vs) =
        (\<lambda>acc x. foldl (\<lambda>acc v. AList.update v (fst x) acc) acc (snd x))"
    by (auto simp: fun_eq_iff)
  then have "invert d =
      foldl (\<lambda>acc x. foldl (\<lambda>acc v. AList.update v (fst x) acc) acc (snd x)) [] d"
    unfolding invert_def by (rule arg_cong[where f = "\<lambda>F. foldl F [] d"])
  then show ?thesis
    by (simp only: assign_nested[of "\<lambda>a. a" fst snd "[]" d])
qed

lemma invert_keys: "set (keys (invert d)) = set (concat (map snd d))"
  unfolding invert_flat case_prod_beta assign_keys
  by (force simp: keys_def)

lemma invert_values:
  assumes "(v, k) \<in> set (invert d)"
  shows "\<exists>vs. (k, vs) \<in> set d \<and> v \<in> set vs"
  using assign_values[OF assms[unfolded invert_flat case_prod_beta]]
  by force

lemma norm_index_keys: "set (keys (norm_index ks)) = base_normalize ` set ks"
  unfolding norm_index_def assign_keys by (simp add: keys_def)

lemma norm_index_values:
  assumes "(t, k) \<in> set (norm_index ks)"
  shows "k \<in> set ks \<and> t = base_normalize k"
  using assign_values[OF assms[unfolded norm_index_def]] by auto

subsection \<open>Every region has its macro-area\<close>

lemma regions_have_macro:
  "list_all (\<lambda>r. r \<in> set (concat (map snd MACRO_TO_REGIONS)))
     (keys REGION_TO_PROVINCES @ REGIONS)"
  by code_simp

lemma region_in_macro:
  assumes "r \<in> set (keys REGION_TO_PROVINCES) \<or> r \<in> set REGIONS"
  shows "contains_key REGION_TO_MACRO r"
  using assms regions_have_macro
  by (auto simp: contains_key_iff REGION_TO_MACRO_def invert_keys list_all_iff simp del: set_concat)

subsection \<open>What the standardizer can return\<close>

definition derived :: "territory \<Rightarrow> bool" where
  "derived t \<longleftrightarrow>
     (\<exists>p r m. t = \<lparr>level = ascii ''province'', province_std = Some p, region_std = Some r,
                    macro_std = Some m\<rparr>
              \<and> getitem PROVINCE_TO_REGION p = Inr r \<and> getitem REGION_TO_MACRO r = Inr m)
     \<or> (\<exists>r m. t = \<lparr>level = ascii ''region'', province_std = None, region_std = Some r,
                     macro_std = Some m\<rparr>)
     \<or> (\<exists>m. t = \<lparr>level = ascii ''macro'', province_std = None, region_std = None,
                   macro_std = Some m\<rparr>)
     \<or> t = unknown_record"

lemma level_names_differ:
  "ascii ''province'' \<noteq> ascii ''region''" "ascii ''province'' \<noteq> ascii ''macro''"
  "ascii ''province'' \<noteq> ascii ''unknown''" "ascii ''region'' \<noteq> ascii ''macro''"
  "ascii ''region'' \<noteq> ascii ''unknown''" "ascii ''macro'' \<noteq> ascii ''unknown''"
  by (simp_all add: ascii_def)

lemma province_record_derived:
  assumes "contains_key PROVINCE_TO_REGION p"
  shows "\<exists>t. province_record p = Inr (Some t) \<and> derived t"
proof -
  from getitem_contains[OF assms] obtain r where
    r: "getitem PROVINCE_TO_REGION p = Inr r" "(p, r) \<in> set PROVINCE_TO_REGION"
    by blast
  from invert_values[OF r(2)[unfolded PROVINCE_TO_REGION_def]]
  have "r \<in> set (keys REGION_TO_PROVINCES)"
    by (force simp: keys_def)
  then have "contains_key REGION_TO_MACRO r"
    by (simp add: region_in_macro)
  from getitem_contains[OF this] obtain m where m: "getitem REGION_TO_MACRO r = Inr m"
    by blast
  show ?thesis
    using r(1) m by (simp add: province_record_def derived_def)
qed

lemma region_record_derived:
  assumes "r \<in> set REGIONS"
  shows "\<exists>t. region_record r = Inr (Some t) \<and> derived t"
proof -
  have "contains_key REGION_TO_MACRO r"
    using assms by (simp add: region_in_macro)
  from getitem_contains[OF this] obtain m where "getitem REGION_TO_MACRO r = Inr m"
    by blast
  then show ?thesis
    by (simp add: region_record_def derived_def)
qed

lemma macro_record_derived: "\<exists>t. macro_record m = Inr (Some t) \<and> derived t"
  by (simp add: macro_record_def derived_def)

definition falls_through_or_derived :: "py_error + territory option \<Rightarrow> bool" where
  "falls_through_or_derived res \<longleftrightarrow> res = Inr None \<or> (\<exists>t. res = Inr (Some t) \<and> derived t)"

lemma alias_pass_derived: "falls_through_or_derived (alias_pass tok)"
proof (cases "contains_key NORM_ALIAS tok")
  case False
  then show ?thesis by (simp add: alias_pass_def falls_through_or_derived_def)
next
  case True
  from getitem_contains[OF this] obtain canonical where
    c: "getitem NORM_ALIAS tok = Inr canonical" by blast
  show ?thesis
    using True c province_record_derived[of canonical] region_record_derived[of canonical]
      macro_record_derived[of canonical]
    by (auto simp: alias_pass_def falls_through_or_derived_def)
qed

lemma norm_prov_value:
  assumes "getitem NORM_PROV k = Inr p"
  shows "contains_key PROVINCE_TO_REGION p"
proof -
  have "(k, p) \<in> set NORM_PROV"
    using assms by (auto simp: getitem_iff dest: map_of_SomeD)
  from norm_index_values[OF this[unfolded NORM_PROV_def]] show ?thesis
    by (simp add: contains_key_iff)
qed

lemma norm_reg_value:
  assumes "getitem NORM_REG k = Inr r"
  shows "r \<in> set REGIONS"
proof -
  have "(k, r) \<in> set NORM_REG"
    using assms by (auto simp: getitem_iff dest: map_of_SomeD)
  from norm_index_values[OF this[unfolded NORM_REG_def]] show ?thesis by simp
qed

lemma via_norm_prov:
  assumes "contains_key NORM_PROV k"
  shows "\<exists>t. (case getitem NORM_PROV k of Inl e \<Rightarrow> Inl e | Inr p \<Rightarrow> province_record p)
            = Inr (Some t) \<and> derived t"
proof -
  from getitem_contains[OF assms] obtain p where p: "getitem NORM_PROV k = Inr p" by blast
  from province_record_derived[OF norm_prov_value[OF p]] p show ?thesis by simp
qed

lemma via_norm_reg:
  assumes "contains_key NORM_REG k"
  shows "\<exists>t. (case getitem NORM_REG k of Inl e \<Rightarrow> Inl e | Inr r \<Rightarrow> region_record r)
            = Inr (Some t) \<and> derived t"
proof -
  from getitem_contains[OF assms] obtain r where r: "getitem NORM_REG k = Inr r" by blast
  from region_record_derived[OF norm_reg_value[OF r]] r show ?thesis by simp
qed

lemma via_norm_mac:
  assumes "contains_key NORM_MAC k"
  shows "\<exists>t. (case getitem NORM_MAC k of Inl e \<Rightarrow> Inl e | Inr m \<Rightarrow> macro_record m)
            = Inr (Some t) \<and> derived t"
proof -
  from getitem_contains[OF assms] obtain m where m: "getitem NORM_MAC k = Inr m" by blast
  from macro_record_derived[of m] m show ?thesis by simp
qed

lemma exact_pass_derived: "falls_through_or_derived (exact_pass tok)"
  using via_norm_prov[of tok] via_norm_reg[of tok] via_norm_mac[of tok]
  by (auto simp: exact_pass_def falls_through_or_derived_def)

subsection \<open>The fuzzy search returns candidates\<close>

lemma get_close_matches_one:
  "\<exists>hits. get_close_matches word possibilities 1 (9 / 10) = Inr hits
          \<and> length hits \<le> 1 \<and> set hits \<subseteq> set possibilities"
proof -
  have "set (take n (rev (sort xs))) \<subseteq> set xs" for n and xs :: "(rat \<times> unicode) list"
    using set_take_subset[of n "rev (sort xs)"] by simp
  then show ?thesis
    by (fastforce simp: get_close_matches_def nlargest_def Let_def)
qed

lemma match_from_candidates_member:
  "\<exists>m. match_from_candidates tok cands = Inr m \<and> (truthy m \<longrightarrow> contains_key d (the m) \<or> set cands \<noteq> set (keys d))"
proof -
  from get_close_matches_one[of tok cands] obtain hits where
    h: "get_close_matches tok cands 1 (9 / 10) = Inr hits" "set hits \<subseteq> set cands" by blast
  show ?thesis
  proof (cases hits)
    case Nil
    with h show ?thesis by (simp add: match_from_candidates_def truthy_def)
  next
    case (Cons x xs)
    with h have "x \<in> set cands" by auto
    with h Cons show ?thesis
      by (auto simp: match_from_candidates_def contains_key_iff)
  qed
qed

lemma fuzzy_pass_derived: "falls_through_or_derived (fuzzy_pass tok)"
proof -
  obtain m1 where m1: "match_from_candidates tok (keys NORM_PROV) = Inr m1"
      "truthy m1 \<longrightarrow> contains_key NORM_PROV (the m1)"
    using match_from_candidates_member[of tok "keys NORM_PROV" NORM_PROV] by auto
  obtain m2 where m2: "match_from_candidates tok (keys NORM_REG) = Inr m2"
      "truthy m2 \<longrightarrow> contains_key NORM_REG (the m2)"
    using match_from_candidates_member[of tok "keys NORM_REG" NORM_REG] by auto
  obtain m3 where m3: "match_from_candidates tok (keys NORM_MAC) = Inr m3"
      "truthy m3 \<longrightarrow> contains_key NORM_MAC (the m3)"
    using match_from_candidates_member[of tok "keys NORM_MAC" NORM_MAC] by auto
  show ?thesis
    using m1 m2 m3 via_norm_prov[of "the m1"] via_norm_reg[of "the m2"] via_norm_mac[of "the m3"]
    by (auto simp: fuzzy_pass_def falls_through_or_derived_def)
qed

lemma standardize_token_derived: "\<exists>t. standardize_token tok = Inr t \<and> derived t"
proof -
  have last: "derived \<lparr>level = ascii ''region'', province_std = None,
      region_std = Some Valle_d_Aosta, macro_std = Some (ascii ''Nord-ovest'')\<rparr>"
    "derived unknown_record"
    by (simp_all add: derived_def)
  show ?thesis
    using alias_pass_derived[of tok] exact_pass_derived[of tok] fuzzy_pass_derived[of tok] last
    by (auto simp: standardize_token_def falls_through_or_derived_def)
qed

lemma standardize_territory_derived: "\<exists>t. standardize_territory raw = Inr t \<and> derived t"
  using standardize_token_derived
  by (cases raw) (simp_all add: standardize_territory_def derived_def)

subsection \<open>Normal forms of \<open>base_normalize\<close>\<close>

definition plain_cp :: "int \<Rightarrow> bool" where
  "plain_cp c \<longleftrightarrow>
     lower_cp c = c \<and> decomp c = [c] \<and> \<not> combining c
     \<and> c \<notin> set [0x2019, 0x27, 0x60] \<and> c \<notin> set [0x2D, 0x2013, 0x2014]
     \<and> (is_space c \<longrightarrow> c = 0x20)"

fun single_spaced :: "unicode \<Rightarrow> bool" where
  "single_spaced [] \<longleftrightarrow> True"
| "single_spaced [c] \<longleftrightarrow> True"
| "single_spaced (c # d # cs) \<longleftrightarrow> \<not> (is_space c \<and> is_space d) \<and> single_spaced (d # cs)"

definition normal :: "unicode \<Rightarrow> bool" where
  "normal t \<longleftrightarrow>
     list_all plain_cp t \<and> single_spaced t
     \<and> (t \<noteq> [] \<longrightarrow> \<not> is_space (hd t) \<and> \<not> is_space (last t))"

lemma charts_outside:
  assumes "c < 0 \<or> 0x344 < c"
  shows "lower_cp c = c" "decomp c = [c]"
  using assms by (auto simp: lower_cp_def decomp_def)

lemma charts_inside:
  "list_all (\<lambda>c. list_all (\<lambda>d. combining d \<or> (lower_cp d = d \<and> decomp d = [d]))
                       (decomp (lower_cp c))) [0..0x344]"
  by code_simp

lemma decomp_lower_plain:
  assumes "d \<in> set (decomp (lower_cp c))" "\<not> combining d"
  shows "lower_cp d = d \<and> decomp d = [d]"
proof (cases "c < 0 \<or> 0x344 < c")
  case True
  with assms charts_outside[OF True] show ?thesis by simp
next
  case False
  then have "c \<in> set [0..0x344]" by simp
  with charts_inside assms show ?thesis
    unfolding list_all_iff by blast
qed


lemma single_spaced_nth:
  "single_spaced t \<longleftrightarrow> (\<forall>i. Suc i < length t \<longrightarrow> \<not> (is_space (t ! i) \<and> is_space (t ! Suc i)))"
proof (induction t rule: single_spaced.induct)
  case (3 c d cs)
  show ?case
  proof
    assume l: "single_spaced (c # d # cs)"
    show "\<forall>i. Suc i < length (c # d # cs) \<longrightarrow>
        \<not> (is_space ((c # d # cs) ! i) \<and> is_space ((c # d # cs) ! Suc i))"
    proof (intro allI impI)
      fix i assume "Suc i < length (c # d # cs)"
      then show "\<not> (is_space ((c # d # cs) ! i) \<and> is_space ((c # d # cs) ! Suc i))"
        using l 3 by (cases i) auto
    qed
  next
    assume r: "\<forall>i. Suc i < length (c # d # cs) \<longrightarrow>
        \<not> (is_space ((c # d # cs) ! i) \<and> is_space ((c # d # cs) ! Suc i))"
    from r[rule_format, of 0] have "\<not> (is_space c \<and> is_space d)" by simp
    moreover have "\<forall>i. Suc i < length (d # cs) \<longrightarrow>
        \<not> (is_space ((d # cs) ! i) \<and> is_space ((d # cs) ! Suc i))"
      using r[rule_format, of "Suc i" for i] by simp
    ultimately show "single_spaced (c # d # cs)" using 3 by simp
  qed
qed simp_all

lemma single_spaced_drop: "single_spaced t \<Longrightarrow> single_spaced (drop n t)"
  unfolding single_spaced_nth by (auto simp: add.commute)

lemma single_spaced_take: "single_spaced t \<Longrightarrow> single_spaced (take n t)"
  unfolding single_spaced_nth by auto

lemma strip_conv:
  "\<exists>m n. strip t = take m (drop n t)"
proof -
  define y where "y = dropWhile is_space t"
  have "rev (dropWhile is_space (rev y)) =
      take (length y - length (takeWhile is_space (rev y))) y"
    by (simp add: dropWhile_eq_drop rev_drop)
  moreover have "y = drop (length (takeWhile is_space t)) t"
    by (simp add: y_def dropWhile_eq_drop)
  ultimately show ?thesis
    unfolding strip_def y_def[symmetric] by metis
qed

lemma strip_ends:
  assumes "strip t \<noteq> []"
  shows "\<not> is_space (hd (strip t))" "\<not> is_space (last (strip t))"
proof -
  define y where "y = dropWhile is_space t"
  define z where "z = dropWhile is_space (rev y)"
  have s: "strip t = rev z" by (simp add: strip_def y_def z_def)
  with assms have z: "z \<noteq> []" by simp
  then have "\<not> is_space (hd z)" unfolding z_def by (rule hd_dropWhile)
  then show "\<not> is_space (last (strip t))" using z by (simp add: s last_rev)
  from z have y: "y \<noteq> []" by (auto simp: z_def)
  then have hy: "\<not> is_space (hd y)" unfolding y_def by (rule hd_dropWhile)
  have "rev y = takeWhile is_space (rev y) @ z"
    by (simp add: z_def)
  then have "y = rev z @ rev (takeWhile is_space (rev y))"
    by (metis rev_append rev_rev_ident)
  with z have "hd y = hd (rev z)" by (metis hd_append2 rev_is_Nil_conv)
  with hy show "\<not> is_space (hd (strip t))" by (simp add: s)
qed

lemma strip_noop:
  assumes "t \<noteq> [] \<longrightarrow> \<not> is_space (hd t) \<and> \<not> is_space (last t)"
  shows "strip t = t"
proof (cases "t = []")
  case True
  then show ?thesis by (simp add: strip_def)
next
  case False
  with assms have h: "\<not> is_space (hd t)" "\<not> is_space (last t)" by auto
  from False h(1) have "dropWhile is_space t = t" by (cases t) auto
  moreover from False h(2) have "dropWhile is_space (rev t) = rev t"
    by (cases "rev t") (auto simp: last_rev[symmetric] hd_rev)
  ultimately show ?thesis by (simp add: strip_def)
qed

lemma lower_plain: "list_all plain_cp t \<Longrightarrow> lower t = t"
  by (induction t) (auto simp: lower_def plain_cp_def)

lemma strip_accents_plain: "list_all plain_cp t \<Longrightarrow> strip_accents t = t"
  by (induction t) (auto simp: strip_accents_def nfkd_def plain_cp_def)

lemma sub_class_noop: "\<forall>c \<in> set t. c \<notin> set cls \<Longrightarrow> sub_class cls t = t"
  by (induction t) (auto simp: sub_class_def)

lemma sub_spaces_plain:
  "list_all plain_cp t \<Longrightarrow> single_spaced t \<Longrightarrow> sub_spaces t = t"
proof (induction t rule: single_spaced.induct)
  case 1
  then show ?case by simp
next
  case (2 c)
  then show ?case by (auto simp: plain_cp_def)
next
  case (3 c d cs)
  then show ?case by (auto simp: plain_cp_def)
qed

definition prefix_matches :: "unicode \<Rightarrow> unicode \<Rightarrow> bool" where
  "prefix_matches t p \<longleftrightarrow>
     take (length p) t = p \<and> drop (length p) t \<noteq> [] \<and> is_space (hd (drop (length p) t))"

definition has_prefix :: "unicode \<Rightarrow> bool" where
  "has_prefix t = list_ex (prefix_matches t) prefixes"

lemma sub_prefix_alts_cases:
  "(if list_ex (prefix_matches t) ps
    then \<exists>p \<in> set ps. prefix_matches t p
           \<and> sub_prefix_alts ps t = dropWhile is_space (drop (length p) t)
    else sub_prefix_alts ps t = t)"
  by (induction ps) (auto simp: Let_def prefix_matches_def)

lemma sub_prefix_noop: "\<not> has_prefix t \<Longrightarrow> sub_prefix t = t"
  using sub_prefix_alts_cases[of t prefixes]
  by (simp add: has_prefix_def sub_prefix_def)

lemma sub_prefix_match:
  assumes "has_prefix t"
  shows "\<exists>p :: unicode. drop (length p) t \<noteq> [] \<and> is_space (hd (drop (length p) t))
           \<and> sub_prefix t = dropWhile is_space (drop (length p) t)"
proof -
  from assms sub_prefix_alts_cases[of t prefixes] obtain p where
    "prefix_matches t p" "sub_prefix_alts prefixes t = dropWhile is_space (drop (length p) t)"
    by (auto simp: has_prefix_def)
  then have "drop (length p) t \<noteq> [] \<and> is_space (hd (drop (length p) t))
      \<and> sub_prefix t = dropWhile is_space (drop (length p) t)"
    by (simp add: prefix_matches_def sub_prefix_def)
  then show ?thesis by (rule exI)
qed

lemma sub_prefix_shorter:
  assumes "has_prefix t"
  shows "length (sub_prefix t) < length t"
proof -
  from sub_prefix_match[OF assms] obtain p :: unicode where
    p: "drop (length p) t \<noteq> []" "is_space (hd (drop (length p) t))"
       "sub_prefix t = dropWhile is_space (drop (length p) t)"
    by blast
  from p(1,2) have "length (dropWhile is_space (drop (length p) t)) < length (drop (length p) t)"
    by (cases "drop (length p) t") (auto simp: length_dropWhile_le less_Suc_eq_le)
  with p(3) show ?thesis by simp
qed

lemma sub_prefix_drop: "\<exists>n. sub_prefix t = drop n t"
proof (cases "has_prefix t")
  case False
  then have "sub_prefix t = drop 0 t" by (simp add: sub_prefix_noop)
  then show ?thesis by (rule exI)
next
  case True
  from sub_prefix_match[OF this] obtain p :: unicode where
    "sub_prefix t = dropWhile is_space (drop (length p) t)" by blast
  then have "sub_prefix t = drop (length p + length (takeWhile is_space (drop (length p) t))) t"
    by (simp add: dropWhile_eq_drop add.commute)
  then show ?thesis by (rule exI)
qed

lemma single_spaced_Cons:
  "single_spaced (c # r) \<longleftrightarrow> (r = [] \<or> \<not> (is_space c \<and> is_space (hd r))) \<and> single_spaced r"
  by (cases r) auto

lemma sub_spaces_shape:
  "single_spaced (sub_spaces x) \<and> (sub_spaces x = [] \<longleftrightarrow> x = [])
   \<and> (x \<noteq> [] \<longrightarrow> is_space (hd (sub_spaces x)) = is_space (hd x))"
proof (induction x rule: sub_spaces.induct)
  case 1
  then show ?case by simp
next
  case (2 c cs)
  show ?case
  proof (cases "is_space c")
    case True
    define y where "y = dropWhile is_space cs"
    have "y \<noteq> [] \<Longrightarrow> \<not> is_space (hd y)"
      unfolding y_def by (rule hd_dropWhile)
    moreover have "is_space 32" by (simp add: is_space_def)
    ultimately show ?thesis
      using True 2(1)[OF True] by (auto simp: single_spaced_Cons y_def[symmetric])
  next
    case False
    with 2(2)[OF False] show ?thesis by (auto simp: single_spaced_Cons)
  qed
qed

lemma sub_spaces_set:
  "e \<in> set (sub_spaces x) \<Longrightarrow> e = 32 \<or> (e \<in> set x \<and> \<not> is_space e)"
proof (induction x rule: sub_spaces.induct)
  case 1
  then show ?case by simp
next
  case (2 c cs)
  then show ?case
    by (cases "is_space c") (auto dest: set_dropWhileD)
qed

lemma strip_set: "set (strip t) \<subseteq> set t"
proof -
  obtain m n where "strip t = take m (drop n t)" using strip_conv by blast
  then show ?thesis
    using set_take_subset[of m "drop n t"] set_drop_subset[of n t] by auto
qed

lemma plain_space: "plain_cp 32"
  by (simp add: plain_cp_def lower_cp_def decomp_def combining_def)

lemma base_normalize_chars:
  "list_all plain_cp
     (sub_spaces (sub_class [0x2D, 0x2013, 0x2014] (sub_class [0x2019, 0x27, 0x60]
        (strip_accents (strip (lower s))))))"
proof -
  define w where "w = strip_accents (strip (lower s))"
  have w: "lower_cp d = d \<and> decomp d = [d] \<and> \<not> combining d" if "d \<in> set w" for d
  proof -
    from that obtain x where x: "x \<in> set (strip (lower s))" "d \<in> set (decomp x)" "\<not> combining d"
      by (auto simp: w_def strip_accents_def nfkd_def)
    from x(1) strip_set have "x \<in> set (lower s)" by blast
    then obtain c where "x = lower_cp c" by (auto simp: lower_def)
    with x decomp_lower_plain[of d c] show ?thesis by simp
  qed
  have "plain_cp e"
    if "e \<in> set (sub_spaces (sub_class [0x2D, 0x2013, 0x2014] (sub_class [0x2019, 0x27, 0x60] w)))"
    for e
  proof -
    from sub_spaces_set[OF that] show ?thesis
    proof
      assume "e = 32"
      then show ?thesis by (simp add: plain_space)
    next
      assume e: "e \<in> set (sub_class [0x2D, 0x2013, 0x2014] (sub_class [0x2019, 0x27, 0x60] w))
          \<and> \<not> is_space e"
      then have "e \<noteq> 32" by (auto simp: is_space_def)
      with e have "e \<in> set w \<and> e \<notin> set [0x2019, 0x27, 0x60] \<and> e \<notin> set [0x2D, 0x2013, 0x2014]"
        by (auto simp: sub_class_def split: if_splits)
      with w[of e] e show ?thesis by (simp add: plain_cp_def)
    qed
  qed
  then show ?thesis by (simp add: list_all_iff w_def)
qed

lemma normal_base_normalize: "normal (base_normalize s)"
proof -
  define u where "u = sub_spaces (sub_class [0x2D, 0x2013, 0x2014]
      (sub_class [0x2019, 0x27, 0x60] (strip_accents (strip (lower s)))))"
  have bn: "base_normalize s = strip (sub_prefix u)"
    by (simp add: base_normalize_def u_def Let_def)
  obtain k where k: "sub_prefix u = drop k u" using sub_prefix_drop by blast
  obtain m n where mn: "strip (drop k u) = take m (drop n (drop k u))"
    using strip_conv by blast
  have "single_spaced u" unfolding u_def using sub_spaces_shape by blast
  then have 1: "single_spaced (base_normalize s)"
    by (simp add: bn k mn single_spaced_take single_spaced_drop del: drop_drop)
  have "list_all plain_cp u" unfolding u_def by (rule base_normalize_chars)
  moreover have "set (base_normalize s) \<subseteq> set u"
    using strip_set[of "drop k u"] set_drop_subset[of k u] by (auto simp: bn k)
  ultimately have 2: "list_all plain_cp (base_normalize s)"
    by (auto simp: list_all_iff)
  from 1 2 strip_ends[of "sub_prefix u"] show ?thesis
    by (auto simp: normal_def bn)
qed

lemma normal_sub_prefix:
  assumes "normal t"
  shows "normal (sub_prefix t)"
proof (cases "has_prefix t")
  case False
  with assms show ?thesis by (simp add: sub_prefix_noop)
next
  case True
  from sub_prefix_match[OF this] obtain p :: unicode where
    p: "drop (length p) t \<noteq> []" "sub_prefix t = dropWhile is_space (drop (length p) t)"
    by blast
  define k where "k = length p + length (takeWhile is_space (drop (length p) t))"
  have r: "sub_prefix t = drop k t"
    by (simp add: p(2) k_def dropWhile_eq_drop add.commute)
  have "single_spaced (drop k t)" "list_all plain_cp (drop k t)"
    using assms set_drop_subset[of k t] by (auto simp: normal_def single_spaced_drop list_all_iff)
  moreover have "\<not> is_space (hd (drop k t)) \<and> \<not> is_space (last (drop k t))" if "drop k t \<noteq> []"
  proof -
    from that have "k < length t" by simp
    then have "last (drop k t) = last t" by simp
    moreover from that have "t \<noteq> []" by auto
    moreover have "\<not> is_space (hd (dropWhile is_space (drop (length p) t)))"
      using that hd_dropWhile[of is_space "drop (length p) t"] by (simp add: r[symmetric] p(2))
    ultimately show ?thesis using assms by (simp add: normal_def r[symmetric] p(2))
  qed
  ultimately show ?thesis by (simp add: normal_def r)
qed

lemma base_normalize_normal:
  assumes "normal t"
  shows "base_normalize t = sub_prefix t"
proof -
  from assms have p: "list_all plain_cp t" and s: "single_spaced t"
    and e: "t \<noteq> [] \<longrightarrow> \<not> is_space (hd t) \<and> \<not> is_space (last t)"
    by (simp_all add: normal_def)
  have "\<forall>c\<in>set t. c \<notin> set [0x2019, 0x27, 0x60]" "\<forall>c\<in>set t. c \<notin> set [0x2D, 0x2013, 0x2014]"
    using p by (auto simp: list_all_iff plain_cp_def)
  then have "base_normalize t = strip (sub_prefix t)"
    using p s by (simp add: base_normalize_def Let_def lower_plain strip_noop[OF e]
        strip_accents_plain sub_class_noop sub_spaces_plain)
  moreover from normal_sub_prefix[OF assms] have "strip (sub_prefix t) = sub_prefix t"
    by (intro strip_noop) (simp add: normal_def)
  ultimately show ?thesis by simp
qed

lemma base_normalize_twice: "base_normalize (base_normalize s) = sub_prefix (base_normalize s)"
  by (rule base_normalize_normal[OF normal_base_normalize])

lemma single_spaced_append:
  "single_spaced (xs @ ys) \<longleftrightarrow>
     single_spaced xs \<and> single_spaced ys
     \<and> (xs \<noteq> [] \<and> ys \<noteq> [] \<longrightarrow> \<not> (is_space (last xs) \<and> is_space (hd ys)))"
proof (induction xs rule: single_spaced.induct)
  case 1
  then show ?case by simp
next
  case (2 c)
  then show ?case by (auto simp: single_spaced_Cons)
next
  case (3 c d cs)
  then show ?case by auto
qed

lemma is_space_32: "is_space 32"
  by (simp add: is_space_def)

lemma sub_prefix_prefixed:
  assumes "b \<noteq> []" "\<not> is_space (hd b)"
  shows "sub_prefix (ascii ''provincia di '' @ b) = b"
    "sub_prefix (ascii ''prov di '' @ b) = b"
    "sub_prefix (ascii ''citta metropolitana di '' @ b) = b"
proof -
  from assms obtain c b' where b: "b = c # b'" "\<not> is_space c"
    by (cases b) auto
  show "sub_prefix (ascii ''provincia di '' @ b) = b"
    "sub_prefix (ascii ''prov di '' @ b) = b"
    "sub_prefix (ascii ''citta metropolitana di '' @ b) = b"
    using b(2) by (simp_all add: b(1) sub_prefix_def prefixes_def ascii_def is_space_32)
qed

lemma prefix_texts_normal:
  "list_all (\<lambda>p. list_all plain_cp p \<and> single_spaced p \<and> \<not> is_space (hd p) \<and> p \<noteq> []
               \<and> is_space (last p) \<and> \<not> is_space (last (butlast p)))
     [ascii ''provincia di '', ascii ''prov di '', ascii ''citta metropolitana di '']"
  by code_simp

lemma normal_prefixed:
  assumes "normal b" "b \<noteq> []"
    and "p \<in> set [ascii ''provincia di '', ascii ''prov di '', ascii ''citta metropolitana di '']"
  shows "normal (p @ b)"
proof -
  from prefix_texts_normal assms(3) have
    p: "list_all plain_cp p" "single_spaced p" "\<not> is_space (hd p)" "p \<noteq> []"
    unfolding list_all_iff by blast+
  from assms(1,2) have "\<not> is_space (hd b)" "\<not> is_space (last b)" "single_spaced b"
      "list_all plain_cp b"
    by (simp_all add: normal_def)
  with p assms(2) show ?thesis
    by (simp add: normal_def single_spaced_append)
qed

lemma auto_variants_norm:
  assumes "base_normalize name \<noteq> []" "\<not> has_prefix (base_normalize name)"
  shows "\<forall>a \<in> set (auto_variants_for_province name). base_normalize a = base_normalize name"
proof -
  define b where "b = base_normalize name"
  have n: "normal b" unfolding b_def by (rule normal_base_normalize)
  with assms have h: "b \<noteq> []" "\<not> is_space (hd b)" "\<not> has_prefix b"
    by (simp_all add: normal_def b_def)
  have 0: "base_normalize b = b"
    using n h(3) by (simp add: base_normalize_normal sub_prefix_noop)
  have "base_normalize (p @ b) = b"
    if "p \<in> set [ascii ''provincia di '', ascii ''prov di '', ascii ''citta metropolitana di '']"
    for p
    using that sub_prefix_prefixed[OF h(1,2)] base_normalize_normal[OF normal_prefixed[OF n h(1) that]]
    by auto
  with 0 show ?thesis
    by (auto simp: auto_variants_for_province_def Let_def b_def[symmetric])
qed

lemma auto_variants_first: "base_normalize name \<in> set (auto_variants_for_province name)"
  by (simp add: auto_variants_for_province_def Let_def)

subsection \<open>The reference data, checked by evaluation\<close>

definition province_names :: "unicode list" where
  "province_names = concat (map snd REGION_TO_PROVINCES)"

definition manual_pairs :: "(unicode \<times> unicode) list" where
  "manual_pairs = concat (map (\<lambda>x. map (\<lambda>a. (base_normalize a, fst x)) (snd x)) CANONICAL_TO_ALIASES)"

definition reference_data_ok :: bool where
  "reference_data_ok =
     (let np = map base_normalize province_names;
          nr = map base_normalize (keys REGION_TO_PROVINCES);
          nm = map base_normalize (keys MACRO_TO_REGIONS);
          self = zip np province_names @ zip nr (keys REGION_TO_PROVINCES)
                 @ zip nm (keys MACRO_TO_REGIONS);
          man = manual_pairs
      in distinct (np @ nr @ nm)
         \<and> list_all (\<lambda>b. b \<noteq> [] \<and> \<not> has_prefix b) np
         \<and> list_all (\<lambda>(k, c). list_all (\<lambda>(k', n). k' \<noteq> k \<or> c = n) self) man
         \<and> list_all (\<lambda>(k, c). list_all (\<lambda>(k', c'). k' \<noteq> k \<or> c' = c) man) man
         \<and> list_all (\<lambda>c. c \<in> set province_names \<or> c \<in> set REGIONS) (keys CANONICAL_TO_ALIASES)
         \<and> list_all (\<lambda>r. r \<in> set (keys REGION_TO_PROVINCES) \<and> r \<notin> set province_names) REGIONS
         \<and> list_all (\<lambda>m. m \<notin> set province_names \<and> m \<notin> set REGIONS) (keys MACRO_TO_REGIONS))"

lemma reference_data: "reference_data_ok"
  by code_simp


subsection \<open>The alias map as one sequence of assignments\<close>

definition assign_all :: "('k \<times> 'v) list \<Rightarrow> ('k, 'v) dict \<Rightarrow> ('k, 'v) dict" where
  "assign_all kvs d = foldl (\<lambda>d y. AList.update (fst y) (snd y) d) d kvs"

lemma assign_all_append: "assign_all (xs @ ys) d = assign_all ys (assign_all xs d)"
  by (simp add: assign_all_def)

lemma loop_assign_all:
  "foldl (\<lambda>d x. AList.update (f x) (g x) d) d xs = assign_all (map (\<lambda>x. (f x, g x)) xs) d"
  by (induction xs arbitrary: d) (simp_all add: assign_all_def)

lemma nested_loop_assign_all:
  "foldl (\<lambda>d x. foldl (\<lambda>d a. AList.update (kf a) (vf x) d) d (vs x)) d xs =
   assign_all (concat (map (\<lambda>x. map (\<lambda>a. (kf a, vf x)) (vs x)) xs)) d"
proof (induction xs arbitrary: d)
  case Nil
  then show ?case by (simp add: assign_all_def)
next
  case (Cons x xs)
  have "foldl (\<lambda>d x. foldl (\<lambda>d a. AList.update (kf a) (vf x) d) d (vs x)) d (x # xs) =
      assign_all (concat (map (\<lambda>x. map (\<lambda>a. (kf a, vf x)) (vs x)) xs))
        (foldl (\<lambda>d a. AList.update (kf a) (vf x) d) d (vs x))"
    by (simp add: Cons.IH)
  also have "foldl (\<lambda>d a. AList.update (kf a) (vf x) d) d (vs x) =
      assign_all (map (\<lambda>a. (kf a, vf x)) (vs x)) d"
    by (rule loop_assign_all)
  finally show ?case by (simp add: assign_all_append)
qed

lemma assign_all_keys: "set (keys (assign_all kvs d)) = set (keys d) \<union> fst ` set kvs"
  unfolding assign_all_def by (rule assign_keys)

lemma assign_all_lookup:
  assumes "\<forall>y \<in> set kvs. fst y = k \<longrightarrow> snd y = v" "k \<in> fst ` set kvs"
  shows "map_of (assign_all kvs d) k = Some v"
  unfolding assign_all_def using assms by (intro assign_last) auto

definition alias_assignments :: "(unicode \<times> unicode) list" where
  "alias_assignments =
     map (\<lambda>r. (base_normalize r, r)) ALL_REGIONS
     @ map (\<lambda>p. (base_normalize p, p)) ALL_PROVINCES
     @ map (\<lambda>m. (base_normalize m, m)) MACROS
     @ concat (map (\<lambda>p. map (\<lambda>a. (base_normalize a, p)) (auto_variants_for_province p))
         ALL_PROVINCES)
     @ manual_pairs"

lemma norm_alias_assigned: "NORM_ALIAS = assign_all alias_assignments []"
proof -
  have m: "(\<lambda>d (canonical, variants).
              foldl (\<lambda>d a. AList.update (base_normalize a) canonical d) d variants) =
           (\<lambda>d x. foldl (\<lambda>d a. AList.update (base_normalize a) (fst x) d) d (snd x))"
    by (auto simp: fun_eq_iff)
  have "NORM_ALIAS =
      assign_all manual_pairs
        (assign_all (concat (map (\<lambda>p. map (\<lambda>a. (base_normalize a, p))
                                        (auto_variants_for_province p)) ALL_PROVINCES))
          (foldl (\<lambda>d m. AList.update (base_normalize m) m d)
            (foldl (\<lambda>d p. AList.update (base_normalize p) p d)
              (foldl (\<lambda>d r. AList.update (base_normalize r) r d) [] ALL_REGIONS)
              ALL_PROVINCES)
            MACROS))"
    unfolding NORM_ALIAS_def ALIASES_def build_alias_map_def Let_def m manual_pairs_def
    by (simp only: nested_loop_assign_all)
  then show ?thesis
    by (simp only: loop_assign_all assign_all_append alias_assignments_def)
qed

lemma zip_self: "zip (map f xs) xs = map (\<lambda>x. (f x, x)) xs"
  by (induction xs) simp_all

lemmas reference_raw = reference_data[unfolded reference_data_ok_def Let_def]

lemma norms_distinct:
  "distinct (map base_normalize
     (province_names @ keys REGION_TO_PROVINCES @ keys MACRO_TO_REGIONS))"
  using reference_raw by (simp only: map_append)

lemma province_keys_plain:
  assumes "p \<in> set province_names"
  shows "base_normalize p \<noteq> []" "\<not> has_prefix (base_normalize p)"
proof -
  from reference_raw
  have "list_all (\<lambda>b. b \<noteq> [] \<and> \<not> has_prefix b) (map base_normalize province_names)"
    by (elim conjE)
  with assms show "base_normalize p \<noteq> []" "\<not> has_prefix (base_normalize p)"
    by (simp_all add: list_all_iff)
qed

lemma manual_agrees:
  assumes "(k, c) \<in> set manual_pairs" "base_normalize n = k"
    and "n \<in> set province_names \<union> set (keys REGION_TO_PROVINCES) \<union> set (keys MACRO_TO_REGIONS)"
  shows "c = n"
proof -
  define self where "self = zip (map base_normalize province_names) province_names @
    zip (map base_normalize (keys REGION_TO_PROVINCES)) (keys REGION_TO_PROVINCES) @
    zip (map base_normalize (keys MACRO_TO_REGIONS)) (keys MACRO_TO_REGIONS)"
  from reference_raw
  have "list_all (\<lambda>(k, c). list_all (\<lambda>(k', n). k' \<noteq> k \<or> c = n) self) manual_pairs"
    unfolding self_def by (elim conjE)
  with assms(1) have "\<forall>(k', n) \<in> set self. k' \<noteq> k \<or> c = n"
    by (auto simp: list_all_iff)
  moreover have "(base_normalize n, n) \<in> set self"
    using assms(3) by (auto simp: self_def zip_self)
  ultimately show ?thesis using assms(2) by auto
qed

lemma manual_functional:
  assumes "(k, c) \<in> set manual_pairs" "(k, c') \<in> set manual_pairs"
  shows "c' = c"
proof -
  from reference_raw
  have "list_all (\<lambda>(k, c). list_all (\<lambda>(k', c'). k' \<noteq> k \<or> c' = c) manual_pairs) manual_pairs"
    by (elim conjE)
  with assms show ?thesis by (auto simp: list_all_iff)
qed

lemma manual_canonical:
  assumes "c \<in> set (keys CANONICAL_TO_ALIASES)"
  shows "c \<in> set province_names \<or> c \<in> set REGIONS"
proof -
  from reference_raw
  have "list_all (\<lambda>c. c \<in> set province_names \<or> c \<in> set REGIONS) (keys CANONICAL_TO_ALIASES)"
    by (elim conjE)
  with assms show ?thesis by (simp add: list_all_iff)
qed

lemma regions_listed:
  assumes "r \<in> set REGIONS"
  shows "r \<in> set (keys REGION_TO_PROVINCES)" "r \<notin> set province_names"
proof -
  from reference_raw
  have "list_all (\<lambda>r. r \<in> set (keys REGION_TO_PROVINCES) \<and> r \<notin> set province_names) REGIONS"
    by (elim conjE)
  with assms show "r \<in> set (keys REGION_TO_PROVINCES)" "r \<notin> set province_names"
    by (simp_all add: list_all_iff)
qed

lemma macros_apart:
  assumes "m \<in> set (keys MACRO_TO_REGIONS)"
  shows "m \<notin> set province_names" "m \<notin> set REGIONS"
proof -
  from reference_raw
  have "list_all (\<lambda>m. m \<notin> set province_names \<and> m \<notin> set REGIONS) (keys MACRO_TO_REGIONS)"
    by (elim conjE)
  with assms show "m \<notin> set province_names" "m \<notin> set REGIONS"
    by (simp_all add: list_all_iff)
qed

definition canonical_names :: "unicode list" where
  "canonical_names = province_names @ keys REGION_TO_PROVINCES @ keys MACRO_TO_REGIONS"

lemma all_provinces_set: "set ALL_PROVINCES = set province_names"
  by (simp add: ALL_PROVINCES_def province_names_def del: set_concat)

lemma province_keys: "set (keys PROVINCE_TO_REGION) = set province_names"
  by (simp add: PROVINCE_TO_REGION_def invert_keys province_names_def del: set_concat)

lemma macros_set: "set MACROS = set (keys MACRO_TO_REGIONS)"
  by (simp add: MACROS_def)

lemma normalize_injective:
  assumes "n \<in> set canonical_names" "n' \<in> set canonical_names"
    "base_normalize n' = base_normalize n"
  shows "n' = n"
proof -
  have "inj_on base_normalize (set canonical_names)"
    using norms_distinct unfolding canonical_names_def by (simp only: distinct_map)
  with assms show ?thesis by (auto dest: inj_onD)
qed

lemma set_assignments:
  "set alias_assignments = (\<lambda>n. (base_normalize n, n)) ` set canonical_names \<union> set manual_pairs"
proof -
  have "(base_normalize a, p) = (base_normalize p, p)"
    if "p \<in> set province_names" "a \<in> set (auto_variants_for_province p)" for a p
    using auto_variants_norm[OF province_keys_plain[OF that(1)]] that(2) by simp
  then have "set (concat (map (\<lambda>p. map (\<lambda>a. (base_normalize a, p)) (auto_variants_for_province p))
         ALL_PROVINCES)) \<subseteq> (\<lambda>n. (base_normalize n, n)) ` set province_names"
    by (auto simp: all_provinces_set)
  then show ?thesis
    unfolding alias_assignments_def canonical_names_def
    by (auto simp: all_provinces_set macros_set ALL_REGIONS_def image_Un simp del: set_concat)
qed

lemma alias_lookup:
  assumes "\<forall>n \<in> set canonical_names. base_normalize n = k \<longrightarrow> n = v"
    and "\<forall>c. (k, c) \<in> set manual_pairs \<longrightarrow> c = v"
    and "k \<in> base_normalize ` set canonical_names \<or> k \<in> fst ` set manual_pairs"
  shows "map_of NORM_ALIAS k = Some v"
  unfolding norm_alias_assigned
proof (rule assign_all_lookup)
  show "\<forall>y\<in>set alias_assignments. fst y = k \<longrightarrow> snd y = v"
    using assms(1,2) unfolding set_assignments by auto
  show "k \<in> fst ` set alias_assignments"
    using assms(3) unfolding set_assignments by force
qed

lemma alias_absent:
  assumes "k \<notin> base_normalize ` set canonical_names" "k \<notin> fst ` set manual_pairs"
  shows "\<not> contains_key NORM_ALIAS k"
  using assms
  unfolding contains_key_iff norm_alias_assigned assign_all_keys set_assignments
  by (auto simp: keys_def)

lemma canonical_alias:
  assumes "n \<in> set canonical_names"
  shows "map_of NORM_ALIAS (base_normalize n) = Some n"
proof (rule alias_lookup)
  show "\<forall>n'\<in>set canonical_names. base_normalize n' = base_normalize n \<longrightarrow> n' = n"
    using assms normalize_injective by blast
  show "\<forall>c. (base_normalize n, c) \<in> set manual_pairs \<longrightarrow> c = n"
    using assms manual_agrees[of "base_normalize n" _ n] unfolding canonical_names_def by auto
  show "base_normalize n \<in> base_normalize ` set canonical_names \<or> base_normalize n \<in> fst ` set manual_pairs"
    using assms by simp
qed

lemma variant_alias:
  assumes "(c, vs) \<in> set CANONICAL_TO_ALIASES" "a \<in> set vs"
  shows "map_of NORM_ALIAS (base_normalize a) = Some c"
proof (rule alias_lookup)
  have m: "(base_normalize a, c) \<in> set manual_pairs"
    using assms unfolding manual_pairs_def by force
  show "\<forall>n\<in>set canonical_names. base_normalize n = base_normalize a \<longrightarrow> n = c"
    using manual_agrees[OF m] unfolding canonical_names_def by auto
  show "\<forall>c'. (base_normalize a, c') \<in> set manual_pairs \<longrightarrow> c' = c"
    using manual_functional[OF m] by blast
  show "base_normalize a \<in> base_normalize ` set canonical_names \<or> base_normalize a \<in> fst ` set manual_pairs"
    using m by force
qed

lemma alias_pass_value:
  assumes "map_of NORM_ALIAS tok = Some canonical"
  shows "alias_pass tok =
     (if contains_key PROVINCE_TO_REGION canonical then province_record canonical
      else if canonical \<in> set REGIONS then region_record canonical
      else if canonical \<in> set MACROS then macro_record canonical
      else Inr None)"
  using assms by (simp add: alias_pass_def contains_key_def getitem_def)

lemma alias_pass_province:
  assumes "p \<in> set province_names" "map_of NORM_ALIAS tok = Some p"
  shows "alias_pass tok = province_record p"
  using assms by (simp add: alias_pass_value contains_key_iff province_keys)

lemma alias_pass_region:
  assumes "r \<in> set REGIONS" "map_of NORM_ALIAS tok = Some r"
  shows "alias_pass tok = region_record r"
  using assms regions_listed[OF assms(1)]
  by (simp add: alias_pass_value contains_key_iff province_keys)

lemma alias_pass_macro:
  assumes "m \<in> set MACROS" "map_of NORM_ALIAS tok = Some m"
  shows "alias_pass tok = macro_record m"
  using assms macros_apart[of m]
  by (simp add: alias_pass_value contains_key_iff province_keys macros_set)

lemma token_of_alias_pass:
  assumes "alias_pass tok = Inr (Some t)"
  shows "standardize_token tok = Inr t"
  using assms by (simp add: standardize_token_def)

lemma province_record_value:
  assumes "p \<in> set province_names"
  shows "\<exists>r m. getitem PROVINCE_TO_REGION p = Inr r \<and> getitem REGION_TO_MACRO r = Inr m
    \<and> province_record p = Inr (Some \<lparr>level = ascii ''province'', province_std = Some p,
          region_std = Some r, macro_std = Some m\<rparr>)"
proof -
  have "contains_key PROVINCE_TO_REGION p"
    using assms by (simp add: contains_key_iff province_keys)
  from province_record_derived[OF this] obtain t where
    t: "province_record p = Inr (Some t)" by blast
  then show ?thesis
    by (auto simp: province_record_def split: sum.splits)
qed

lemma region_record_value:
  assumes "r \<in> set REGIONS"
  shows "\<exists>m. getitem REGION_TO_MACRO r = Inr m
    \<and> region_record r = Inr (Some \<lparr>level = ascii ''region'', province_std = None,
          region_std = Some r, macro_std = Some m\<rparr>)"
proof -
  from region_record_derived[OF assms] obtain t where "region_record r = Inr (Some t)" by blast
  then show ?thesis
    by (auto simp: region_record_def split: sum.splits)
qed

lemma standardize_province:
  assumes "p \<in> set province_names" "base_normalize s = base_normalize p"
  shows "\<exists>r m. getitem PROVINCE_TO_REGION p = Inr r \<and> getitem REGION_TO_MACRO r = Inr m
    \<and> standardize_territory (Some s) =
        Inr \<lparr>level = ascii ''province'', province_std = Some p, region_std = Some r,
             macro_std = Some m\<rparr>"
proof -
  have "p \<in> set canonical_names" using assms(1) by (simp add: canonical_names_def)
  from canonical_alias[OF this] have "alias_pass (base_normalize s) = province_record p"
    using assms by (simp add: alias_pass_province)
  with province_record_value[OF assms(1)] show ?thesis
    by (auto simp: standardize_territory_def token_of_alias_pass)
qed

lemma standardize_region:
  assumes "r \<in> set REGIONS" "base_normalize s = base_normalize r"
  shows "\<exists>m. getitem REGION_TO_MACRO r = Inr m
    \<and> standardize_territory (Some s) =
        Inr \<lparr>level = ascii ''region'', province_std = None, region_std = Some r,
             macro_std = Some m\<rparr>"
proof -
  have "r \<in> set canonical_names"
    using regions_listed[OF assms(1)] by (simp add: canonical_names_def)
  from canonical_alias[OF this] have "alias_pass (base_normalize s) = region_record r"
    using assms by (simp add: alias_pass_region)
  with region_record_value[OF assms(1)] show ?thesis
    by (auto simp: standardize_territory_def token_of_alias_pass)
qed

lemma standardize_macro:
  assumes "m \<in> set MACROS" "base_normalize s = base_normalize m"
  shows "standardize_territory (Some s) =
        Inr \<lparr>level = ascii ''macro'', province_std = None, region_std = None,
             macro_std = Some m\<rparr>"
proof -
  have "m \<in> set canonical_names"
    using assms(1) by (simp add: canonical_names_def macros_set)
  from canonical_alias[OF this] have "alias_pass (base_normalize s) = macro_record m"
    using assms by (simp add: alias_pass_macro)
  then show ?thesis
    by (simp add: standardize_territory_def token_of_alias_pass macro_record_def)
qed

definition tokens_ok :: bool where
  "tokens_ok =
     (let np = map base_normalize province_names;
          nr = map base_normalize REGIONS;
          nm = map base_normalize (keys MACRO_TO_REGIONS);
          known = np @ nr @ nm @ map base_normalize (keys REGION_TO_PROVINCES) @ map fst manual_pairs;
          bolgna = base_normalize (ascii ''Bolgna'');
          bologna = base_normalize (ascii ''Bologna'')
      in list_all (\<lambda>t. t \<notin> set known
                        \<and> list_all (\<lambda>x. \<not> close_enough t (9 / 10) x) (np @ nr @ nm))
           [base_normalize [], base_normalize (ascii ''Xyzzy Nonexistent''),
            base_normalize (ascii ''Valle dAosta'')]
         \<and> bolgna \<notin> set known
         \<and> list_all (\<lambda>x. x = bologna \<or> \<not> close_enough bolgna (9 / 10) x) np
         \<and> close_enough bolgna (9 / 10) bologna
         \<and> ratio bologna bolgna = 12 / 13
         \<and> base_normalize [] = []
         \<and> \<not> contains (ascii ''aosta'') (base_normalize (ascii ''Xyzzy Nonexistent''))
         \<and> contains (ascii ''aosta'') (base_normalize (ascii ''Valle dAosta'')))"

lemma tokens: "tokens_ok"
  by code_simp


subsection \<open>The outcome of the fuzzy search\<close>

lemma no_match:
  assumes "\<forall>x \<in> set cands. \<not> close_enough tok (9 / 10) x"
  shows "match_from_candidates tok cands = Inr None"
proof -
  from assms have "filter (close_enough tok (9 / 10)) cands = []"
    by (simp add: filter_empty_conv)
  then show ?thesis
    by (simp add: match_from_candidates_def get_close_matches_def nlargest_def)
qed





lemma norm_prov_keys: "set (keys NORM_PROV) = base_normalize ` set province_names"
  by (simp add: NORM_PROV_def norm_index_keys province_keys)

lemma norm_reg_keys: "set (keys NORM_REG) = base_normalize ` set REGIONS"
  by (simp add: NORM_REG_def norm_index_keys)

lemma norm_mac_keys: "set (keys NORM_MAC) = base_normalize ` set (keys MACRO_TO_REGIONS)"
  by (simp add: NORM_MAC_def norm_index_keys macros_set)


lemma token_not_exact:
  assumes "tok \<notin> base_normalize ` set canonical_names" "tok \<notin> fst ` set manual_pairs"
    and "tok \<notin> base_normalize ` set REGIONS"
  shows "alias_pass tok = Inr None" "exact_pass tok = Inr None"
proof -
  show "alias_pass tok = Inr None"
    using alias_absent[OF assms(1,2)] by (simp add: alias_pass_def)
  show "exact_pass tok = Inr None"
    using assms(1,3)
    by (auto simp: exact_pass_def contains_key_iff norm_prov_keys norm_reg_keys norm_mac_keys
        canonical_names_def)
qed

lemma token_falls_through:
  assumes "tok \<notin> base_normalize ` set canonical_names" "tok \<notin> fst ` set manual_pairs"
    and "tok \<notin> base_normalize ` set REGIONS"
    and "\<forall>x \<in> base_normalize ` (set province_names \<union> set REGIONS \<union> set (keys MACRO_TO_REGIONS)).
          \<not> close_enough tok (9 / 10) x"
  shows "alias_pass tok = Inr None" "exact_pass tok = Inr None" "fuzzy_pass tok = Inr None"
proof -
  show "alias_pass tok = Inr None" "exact_pass tok = Inr None"
    using token_not_exact[OF assms(1-3)] by blast+
  have "match_from_candidates tok (keys NORM_PROV) = Inr None"
    "match_from_candidates tok (keys NORM_REG) = Inr None"
    "match_from_candidates tok (keys NORM_MAC) = Inr None"
    using assms(4) by (auto intro!: no_match simp: norm_prov_keys norm_reg_keys norm_mac_keys)
  then show "fuzzy_pass tok = Inr None"
    by (simp add: fuzzy_pass_def truthy_def)
qed

lemmas tokens_raw = tokens[unfolded tokens_ok_def Let_def]

lemma unknown_tokens:
  assumes "tok \<in> {base_normalize [], base_normalize (ascii ''Xyzzy Nonexistent''),
             base_normalize (ascii ''Valle dAosta'')}"
  shows "alias_pass tok = Inr None" "exact_pass tok = Inr None" "fuzzy_pass tok = Inr None"
proof -
  define known where "known = map base_normalize province_names @ map base_normalize REGIONS @
      map base_normalize (keys MACRO_TO_REGIONS) @
      map base_normalize (keys REGION_TO_PROVINCES) @ map fst manual_pairs"
  define cands where "cands = map base_normalize province_names @ map base_normalize REGIONS @
      map base_normalize (keys MACRO_TO_REGIONS)"
  from tokens_raw have
    "list_all (\<lambda>t. t \<notin> set known \<and> list_all (\<lambda>x. \<not> close_enough t (9 / 10) x) cands)
       [base_normalize [], base_normalize (ascii ''Xyzzy Nonexistent''),
        base_normalize (ascii ''Valle dAosta'')]"
    unfolding known_def cands_def by (elim conjE)
  with assms have t: "tok \<notin> set known" "\<forall>x \<in> set cands. \<not> close_enough tok (9 / 10) x"
    by (auto simp: list_all_iff)
  have 1: "tok \<notin> base_normalize ` set canonical_names" "tok \<notin> fst ` set manual_pairs"
    "tok \<notin> base_normalize ` set REGIONS"
    using t(1) by (auto simp: known_def canonical_names_def)
  have 2: "\<forall>x \<in> base_normalize ` (set province_names \<union> set REGIONS \<union> set (keys MACRO_TO_REGIONS)).
          \<not> close_enough tok (9 / 10) x"
    using t(2) by (auto simp: cands_def)
  show "alias_pass tok = Inr None" "exact_pass tok = Inr None" "fuzzy_pass tok = Inr None"
    using token_falls_through[OF 1 2] by blast+
qed

subsection \<open>Looking up the hierarchy of a name\<close>

lemma invert_lookup:
  assumes "(k, vs) \<in> set d" "v \<in> set vs" "\<forall>(k', vs') \<in> set d. v \<in> set vs' \<longrightarrow> k' = k"
  shows "getitem (invert d) v = Inr k"
proof -
  have m: "(\<lambda>acc (k, vs). foldl (\<lambda>acc v. AList.update v k acc) acc vs) =
           (\<lambda>acc x. foldl (\<lambda>acc v. AList.update v (fst x) acc) acc (snd x))"
    by (auto simp: fun_eq_iff)
  have "invert d = assign_all (concat (map (\<lambda>x. map (\<lambda>a. (a, fst x)) (snd x)) d)) []"
    unfolding invert_def m by (simp only: nested_loop_assign_all)
  moreover have "map_of (assign_all (concat (map (\<lambda>x. map (\<lambda>a. (a, fst x)) (snd x)) d)) []) v =
      Some k"
    using assms by (intro assign_all_lookup) force+
  ultimately show ?thesis by (simp add: getitem_iff)
qed

definition in_hierarchy :: "unicode \<Rightarrow> unicode \<Rightarrow> unicode \<Rightarrow> bool" where
  "in_hierarchy p r m \<longleftrightarrow>
     list_ex (\<lambda>(r', ps). r' = r \<and> p \<in> set ps) REGION_TO_PROVINCES
     \<and> list_all (\<lambda>(r', ps). p \<notin> set ps \<or> r' = r) REGION_TO_PROVINCES
     \<and> list_ex (\<lambda>(m', rs). m' = m \<and> r \<in> set rs) MACRO_TO_REGIONS
     \<and> list_all (\<lambda>(m', rs). r \<notin> set rs \<or> m' = m) MACRO_TO_REGIONS"

lemma in_hierarchy_lookup:
  assumes "in_hierarchy p r m"
  shows "getitem PROVINCE_TO_REGION p = Inr r" "getitem REGION_TO_MACRO r = Inr m"
    "p \<in> set province_names"
proof -
  from assms obtain ps where ps: "(r, ps) \<in> set REGION_TO_PROVINCES" "p \<in> set ps"
    by (auto simp: in_hierarchy_def list_ex_iff)
  moreover from assms have "\<forall>(r', ps') \<in> set REGION_TO_PROVINCES. p \<in> set ps' \<longrightarrow> r' = r"
    by (auto simp: in_hierarchy_def list_all_iff)
  ultimately show "getitem PROVINCE_TO_REGION p = Inr r"
    unfolding PROVINCE_TO_REGION_def by (rule invert_lookup)
  from assms obtain rs where "(m, rs) \<in> set MACRO_TO_REGIONS" "r \<in> set rs"
    by (auto simp: in_hierarchy_def list_ex_iff)
  moreover from assms have "\<forall>(m', rs') \<in> set MACRO_TO_REGIONS. r \<in> set rs' \<longrightarrow> m' = m"
    by (auto simp: in_hierarchy_def list_all_iff)
  ultimately show "getitem REGION_TO_MACRO r = Inr m"
    unfolding REGION_TO_MACRO_def by (rule invert_lookup)
  from ps show "p \<in> set province_names"
    unfolding province_names_def by force
qed

definition examples_ok :: bool where
  "examples_ok \<longleftrightarrow>
     in_hierarchy (ascii ''Bologna'') (ascii ''Emilia-Romagna'') (ascii ''Nord-est'')
     \<and> in_hierarchy (ascii ''Napoli'') (ascii ''Campania'') (ascii ''Sud'')
     \<and> in_hierarchy (ascii ''Barletta-Andria-Trani'') (ascii ''Puglia'') (ascii ''Sud'')
     \<and> in_hierarchy (ascii ''Aosta'') Valle_d_Aosta (ascii ''Nord-ovest'')
     \<and> in_hierarchy (ascii ''Roma'') (ascii ''Lazio'') (ascii ''Centro'')
     \<and> Valle_d_Aosta \<in> set REGIONS \<and> ascii ''Lazio'' \<in> set REGIONS
     \<and> ascii ''Centro'' \<in> set (keys MACRO_TO_REGIONS)
     \<and> list_ex (\<lambda>(c, vs). c = ascii ''Barletta-Andria-Trani'' \<and> ascii ''bat'' \<in> set vs)
          CANONICAL_TO_ALIASES
     \<and> list_ex (\<lambda>(c, vs). c = Valle_d_Aosta \<and> ascii ''valle d'aosta'' \<in> set vs)
          CANONICAL_TO_ALIASES
     \<and> base_normalize (ascii ''provincia di Napoli'') = base_normalize (ascii ''Napoli'')
     \<and> base_normalize (ascii ''BAT'') = base_normalize (ascii ''bat'')"

lemma examples: "examples_ok"
  by code_simp

lemma resolves_province:
  assumes "p \<in> set province_names" "map_of NORM_ALIAS (base_normalize s) = Some p"
  shows "\<exists>r m. getitem PROVINCE_TO_REGION p = Inr r \<and> getitem REGION_TO_MACRO r = Inr m
    \<and> standardize_territory (Some s) =
        Inr \<lparr>level = ascii ''province'', province_std = Some p, region_std = Some r,
             macro_std = Some m\<rparr>"
proof -
  have "alias_pass (base_normalize s) = province_record p"
    using assms by (simp add: alias_pass_province)
  with province_record_value[OF assms(1)] show ?thesis
    by (auto simp: standardize_territory_def token_of_alias_pass)
qed

lemma resolves_region:
  assumes "r \<in> set REGIONS" "map_of NORM_ALIAS (base_normalize s) = Some r"
  shows "\<exists>m. getitem REGION_TO_MACRO r = Inr m
    \<and> standardize_territory (Some s) =
        Inr \<lparr>level = ascii ''region'', province_std = None, region_std = Some r,
             macro_std = Some m\<rparr>"
proof -
  have "alias_pass (base_normalize s) = region_record r"
    using assms by (simp add: alias_pass_region)
  with region_record_value[OF assms(1)] show ?thesis
    by (auto simp: standardize_territory_def token_of_alias_pass)
qed

lemmas examples_raw = examples[unfolded examples_ok_def]

lemma bologna: "in_hierarchy (ascii ''Bologna'') (ascii ''Emilia-Romagna'') (ascii ''Nord-est'')"
  using examples_raw by (elim conjE)

lemma napoli: "in_hierarchy (ascii ''Napoli'') (ascii ''Campania'') (ascii ''Sud'')"
  using examples_raw by (elim conjE)

lemma barletta:
  "in_hierarchy (ascii ''Barletta-Andria-Trani'') (ascii ''Puglia'') (ascii ''Sud'')"
  using examples_raw by (elim conjE)

lemma valle_d_aosta:
  "getitem REGION_TO_MACRO Valle_d_Aosta = Inr (ascii ''Nord-ovest'')"
  "Valle_d_Aosta \<in> set REGIONS"
proof -
  have "in_hierarchy (ascii ''Aosta'') Valle_d_Aosta (ascii ''Nord-ovest'')"
    using examples_raw by (elim conjE)
  then show "getitem REGION_TO_MACRO Valle_d_Aosta = Inr (ascii ''Nord-ovest'')"
    by (rule in_hierarchy_lookup)
  show "Valle_d_Aosta \<in> set REGIONS"
    using examples_raw by (elim conjE)
qed

lemma lazio:
  "getitem REGION_TO_MACRO (ascii ''Lazio'') = Inr (ascii ''Centro'')"
  "ascii ''Lazio'' \<in> set REGIONS"
proof -
  have "in_hierarchy (ascii ''Roma'') (ascii ''Lazio'') (ascii ''Centro'')"
    using examples_raw by (elim conjE)
  then show "getitem REGION_TO_MACRO (ascii ''Lazio'') = Inr (ascii ''Centro'')"
    by (rule in_hierarchy_lookup)
  show "ascii ''Lazio'' \<in> set REGIONS"
    using examples_raw by (elim conjE)
qed

lemma centro: "ascii ''Centro'' \<in> set MACROS"
  using examples_raw unfolding macros_set by (elim conjE)

lemma standardize_bologna:
  "standardize_territory (Some (ascii ''Bologna'')) =
     Inr \<lparr>level = ascii ''province'', province_std = Some (ascii ''Bologna''),
          region_std = Some (ascii ''Emilia-Romagna''), macro_std = Some (ascii ''Nord-est'')\<rparr>"
  using standardize_province[OF in_hierarchy_lookup(3)[OF bologna] refl]
    in_hierarchy_lookup(1,2)[OF bologna]
  by auto

lemma standardize_lazio:
  "standardize_territory (Some (ascii ''Lazio'')) =
     Inr \<lparr>level = ascii ''region'', province_std = None, region_std = Some (ascii ''Lazio''),
          macro_std = Some (ascii ''Centro'')\<rparr>"
  using standardize_region[OF lazio(2) refl] lazio(1) by auto

lemma standardize_centro:
  "standardize_territory (Some (ascii ''Centro'')) =
     Inr \<lparr>level = ascii ''macro'', province_std = None, region_std = None,
          macro_std = Some (ascii ''Centro'')\<rparr>"
  using standardize_macro[OF centro refl] .

subsection \<open>Shapes of a derived record\<close>

definition field_pattern :: "territory \<Rightarrow> bool" where
  "field_pattern t \<longleftrightarrow>
     level t \<in> {ascii ''province'', ascii ''region'', ascii ''macro'', ascii ''unknown''}
     \<and> (province_std t \<noteq> None \<longleftrightarrow> level t = ascii ''province'')
     \<and> (region_std t \<noteq> None \<longleftrightarrow> level t \<in> {ascii ''province'', ascii ''region''})
     \<and> (macro_std t \<noteq> None
           \<longleftrightarrow> level t \<in> {ascii ''province'', ascii ''region'', ascii ''macro''})
     \<and> (level t = ascii ''unknown''
           \<longrightarrow> province_std t = None \<and> region_std t = None \<and> macro_std t = None)"

lemma derived_pattern:
  assumes "derived t"
  shows "field_pattern t"
  using assms level_names_differ
  unfolding derived_def field_pattern_def unknown_record_def
  by (elim disjE exE conjE) auto

lemma derived_province:
  assumes "derived t" "level t = ascii ''province''"
  shows "\<exists>p r m. province_std t = Some p \<and> region_std t = Some r \<and> macro_std t = Some m
    \<and> getitem PROVINCE_TO_REGION p = Inr r \<and> getitem REGION_TO_MACRO r = Inr m"
  using assms level_names_differ
  unfolding derived_def unknown_record_def
  by (elim disjE exE conjE) auto

lemma getitem_invert:
  assumes "getitem (invert d) v = Inr k"
  shows "\<exists>vs. (k, vs) \<in> set d \<and> v \<in> set vs"
proof -
  from assms have "(v, k) \<in> set (invert d)"
    by (auto simp: getitem_iff dest: map_of_SomeD)
  then show ?thesis by (rule invert_values)
qed

subsection \<open>The typo \<open>Bolgna\<close>\<close>




subsection \<open>Normal forms whatever the tables of the runtime are\<close>

text \<open>
  What the steps of \<open>base_normalize\<close> after \<open>strip_accents\<close> guarantee of their result,
  whatever \<open>lower\<close> and the decomposition did before them: no apostrophe or dash of the two
  character classes is left, the only whitespace is the space, no two spaces are adjacent,
  and none stands at either end.
\<close>

definition clean_cp :: "int \<Rightarrow> bool" where
  "clean_cp c \<longleftrightarrow>
     c \<notin> set [0x2019, 0x27, 0x60] \<and> c \<notin> set [0x2D, 0x2013, 0x2014]
     \<and> (is_space c \<longrightarrow> c = 0x20)"

definition shaped :: "unicode \<Rightarrow> bool" where
  "shaped t \<longleftrightarrow>
     list_all clean_cp t \<and> single_spaced t
     \<and> (t \<noteq> [] \<longrightarrow> \<not> is_space (hd t) \<and> \<not> is_space (last t))"

lemma base_normalize_tables: "base_normalize_with lower nfkd combining s = base_normalize s"
  by (simp add: base_normalize_with_def base_normalize_def strip_accents_with_def
      strip_accents_def)

lemma sub_spaces_clean:
  "list_all clean_cp t \<Longrightarrow> single_spaced t \<Longrightarrow> sub_spaces t = t"
proof (induction t rule: single_spaced.induct)
  case 1
  then show ?case by simp
next
  case (2 c)
  then show ?case by (auto simp: clean_cp_def)
next
  case (3 c d cs)
  then show ?case by (auto simp: clean_cp_def)
qed

lemma sub_spaces_clean_chars:
  "list_all clean_cp
     (sub_spaces (sub_class [0x2D, 0x2013, 0x2014] (sub_class [0x2019, 0x27, 0x60] w)))"
proof -
  have "clean_cp e"
    if "e \<in> set (sub_spaces (sub_class [0x2D, 0x2013, 0x2014] (sub_class [0x2019, 0x27, 0x60] w)))"
    for e
  proof -
    from sub_spaces_set[OF that] show ?thesis
    proof
      assume "e = 32"
      then show ?thesis by (simp add: clean_cp_def)
    next
      assume e: "e \<in> set (sub_class [0x2D, 0x2013, 0x2014] (sub_class [0x2019, 0x27, 0x60] w))
          \<and> \<not> is_space e"
      then have "e \<noteq> 32" by (auto simp: is_space_def)
      with e have "e \<notin> set [0x2019, 0x27, 0x60] \<and> e \<notin> set [0x2D, 0x2013, 0x2014]"
        by (auto simp: sub_class_def split: if_splits)
      with e show ?thesis by (simp add: clean_cp_def)
    qed
  qed
  then show ?thesis by (simp add: list_all_iff)
qed

lemma shaped_base_normalize_with: "shaped (base_normalize_with str_lower decompose is_combining s)"
proof -
  define u where "u = sub_spaces (sub_class [0x2D, 0x2013, 0x2014]
      (sub_class [0x2019, 0x27, 0x60]
        (strip_accents_with decompose is_combining (strip (str_lower s)))))"
  define t where "t = base_normalize_with str_lower decompose is_combining s"
  have bn: "t = strip (sub_prefix u)"
    by (simp add: t_def base_normalize_with_def u_def Let_def)
  obtain k where k: "sub_prefix u = drop k u" using sub_prefix_drop by blast
  obtain m n where mn: "strip (drop k u) = take m (drop n (drop k u))"
    using strip_conv by blast
  have "single_spaced u" unfolding u_def using sub_spaces_shape by blast
  then have 1: "single_spaced t"
    by (simp add: bn k mn single_spaced_take single_spaced_drop del: drop_drop)
  have "list_all clean_cp u" unfolding u_def by (rule sub_spaces_clean_chars)
  moreover have "set t \<subseteq> set u"
    using strip_set[of "drop k u"] set_drop_subset[of k u] by (auto simp: bn k)
  ultimately have 2: "list_all clean_cp t"
    by (auto simp: list_all_iff)
  from 1 2 strip_ends[of "sub_prefix u"] have "shaped t"
    by (auto simp: shaped_def bn)
  then show ?thesis by (simp add: t_def)
qed

lemma shaped_sub_prefix:
  assumes "shaped t"
  shows "shaped (sub_prefix t)"
proof (cases "has_prefix t")
  case False
  with assms show ?thesis by (simp add: sub_prefix_noop)
next
  case True
  from sub_prefix_match[OF this] obtain p :: unicode where
    p: "drop (length p) t \<noteq> []" "sub_prefix t = dropWhile is_space (drop (length p) t)"
    by blast
  define k where "k = length p + length (takeWhile is_space (drop (length p) t))"
  have r: "sub_prefix t = drop k t"
    by (simp add: p(2) k_def dropWhile_eq_drop add.commute)
  have "single_spaced (drop k t)" "list_all clean_cp (drop k t)"
    using assms set_drop_subset[of k t] by (auto simp: shaped_def single_spaced_drop list_all_iff)
  moreover have "\<not> is_space (hd (drop k t)) \<and> \<not> is_space (last (drop k t))" if "drop k t \<noteq> []"
  proof -
    from that have "k < length t" by simp
    then have "last (drop k t) = last t" by simp
    moreover from that have "t \<noteq> []" by auto
    moreover have "\<not> is_space (hd (dropWhile is_space (drop (length p) t)))"
      using that hd_dropWhile[of is_space "drop (length p) t"] by (simp add: r[symmetric] p(2))
    ultimately show ?thesis using assms by (simp add: shaped_def r[symmetric] p(2))
  qed
  ultimately show ?thesis by (simp add: shaped_def r)
qed

text \<open>
  On a text of that shape which \<open>lower\<close> and \<open>strip_accents\<close> leave alone, all that
  \<open>base_normalize\<close> does is to look for a prefix.
\<close>

lemma base_normalize_with_shaped:
  assumes "shaped t" and "str_lower t = t" and "strip_accents_with decompose is_combining t = t"
  shows "base_normalize_with str_lower decompose is_combining t = sub_prefix t"
proof -
  from assms(1) have p: "list_all clean_cp t" and s: "single_spaced t"
    and e: "t \<noteq> [] \<longrightarrow> \<not> is_space (hd t) \<and> \<not> is_space (last t)"
    by (simp_all add: shaped_def)
  have "\<forall>c\<in>set t. c \<notin> set [0x2019, 0x27, 0x60]" "\<forall>c\<in>set t. c \<notin> set [0x2D, 0x2013, 0x2014]"
    using p by (auto simp: list_all_iff clean_cp_def)
  then have "base_normalize_with str_lower decompose is_combining t = strip (sub_prefix t)"
    using p s assms(2,3)
    by (simp add: base_normalize_with_def Let_def strip_noop[OF e] sub_class_noop sub_spaces_clean)
  moreover from shaped_sub_prefix[OF assms(1)] have "strip (sub_prefix t) = sub_prefix t"
    by (intro strip_noop) (simp add: shaped_def)
  ultimately show ?thesis by simp
qed

subsection \<open>A capital letter out of the decomposition\<close>

text \<open>
  \<open>lower\<close> runs before the decomposition. \<open>U+2102\<close>, the double-struck capital C, has no
  lower case of its own and the compatibility decomposition \<open>C\<close>; so whenever the runtime
  has these entries in its tables, the first call of \<open>base_normalize\<close> returns \<open>C\<close> and
  the second call lower-cases it.
\<close>

lemma capital_from_decomposition:
  assumes "str_lower [0x2102] = [0x2102]" and "decompose [0x2102] = [0x43]"
    and "str_lower [0x43] = [0x63]" and "decompose [0x63] = [0x63]"
    and "\<not> is_combining 0x43" and "\<not> is_combining 0x63"
  shows "base_normalize_with str_lower decompose is_combining [0x2102] = [0x43]"
    and "base_normalize_with str_lower decompose is_combining [0x43] = [0x63]"
    and "base_normalize_with str_lower decompose is_combining
           (base_normalize_with str_lower decompose is_combining [0x2102])
         \<noteq> base_normalize_with str_lower decompose is_combining [0x2102]"
proof -
  have s: "strip [c] = [c]" if "\<not> is_space c" for c
    using that by (simp add: strip_def)
  have n: "\<not> is_space 0x2102" "\<not> is_space 0x43" "\<not> is_space 0x63"
    by (simp_all add: is_space_def)
  have f: "sub_prefix [c] = [c]" for c
    by (simp add: sub_prefix_def prefixes_def ascii_def Let_def)
  show 1: "base_normalize_with str_lower decompose is_combining [0x2102] = [0x43]"
    using assms n
    by (simp add: base_normalize_with_def strip_accents_with_def sub_class_def s f Let_def)
  show 2: "base_normalize_with str_lower decompose is_combining [0x43] = [0x63]"
    using assms n
    by (simp add: base_normalize_with_def strip_accents_with_def sub_class_def s f Let_def)
  from 1 2 show "base_normalize_with str_lower decompose is_combining
           (base_normalize_with str_lower decompose is_combining [0x2102])
         \<noteq> base_normalize_with str_lower decompose is_combining [0x2102]"
    by simp
qed

text \<open>
  The hypotheses of the lemma name six entries of the tables; a runtime that has these
  entries and otherwise leaves every text alone is an instance.
\<close>

lemma capital_from_decomposition_instance:
  "base_normalize_with (\<lambda>s. if s = [0x43] then [0x63] else s)
       (\<lambda>s. if s = [0x2102] then [0x43] else s) (\<lambda>c. False)
     (base_normalize_with (\<lambda>s. if s = [0x43] then [0x63] else s)
       (\<lambda>s. if s = [0x2102] then [0x43] else s) (\<lambda>c. False) [0x2102])
   \<noteq> base_normalize_with (\<lambda>s. if s = [0x43] then [0x63] else s)
       (\<lambda>s. if s = [0x2102] then [0x43] else s) (\<lambda>c. False) [0x2102]"
  by (rule capital_from_decomposition(3)) simp_all

section \<open>Claims\<close>

text \<open>
  C1. Self-resolution. For every canonical province name \<open>n\<close> the standardizer returns the
  province record of \<open>n\<close> with its region \<open>PROVINCE_TO_REGION[n]\<close> and that region's
  macro-area; for every region name the region record with \<open>REGION_TO_MACRO[n]\<close>; for
  every macro-area name the macro record of \<open>n\<close>. No lookup fails on the way.
\<close>

theorem self_resolution:
  "(\<forall>n \<in> set ALL_PROVINCES. \<exists>r m.
       getitem PROVINCE_TO_REGION n = Inr r \<and> getitem REGION_TO_MACRO r = Inr m
       \<and> standardize_territory (Some n) =
           Inr \<lparr>level = ascii ''province'', province_std = Some n, region_std = Some r,
                macro_std = Some m\<rparr>)
   \<and> (\<forall>n \<in> set REGIONS. \<exists>m.
       getitem REGION_TO_MACRO n = Inr m
       \<and> standardize_territory (Some n) =
           Inr \<lparr>level = ascii ''region'', province_std = None, region_std = Some n,
                macro_std = Some m\<rparr>)
   \<and> (\<forall>n \<in> set MACROS.
       standardize_territory (Some n) =
           Inr \<lparr>level = ascii ''macro'', province_std = None, region_std = None,
                macro_std = Some n\<rparr>)"
  using standardize_province[OF _ refl] standardize_region[OF _ refl] standardize_macro[OF _ refl]
  by (simp add: all_provinces_set)

theorem self_resolution_witness:
  "standardize_territory (Some (ascii ''Bologna'')) =
     Inr \<lparr>level = ascii ''province'', province_std = Some (ascii ''Bologna''),
          region_std = Some (ascii ''Emilia-Romagna''), macro_std = Some (ascii ''Nord-est'')\<rparr>
   \<and> standardize_territory (Some (ascii ''Lazio'')) =
     Inr \<lparr>level = ascii ''region'', province_std = None, region_std = Some (ascii ''Lazio''),
          macro_std = Some (ascii ''Centro'')\<rparr>
   \<and> standardize_territory (Some (ascii ''Centro'')) =
     Inr \<lparr>level = ascii ''macro'', province_std = None, region_std = None,
          macro_std = Some (ascii ''Centro'')\<rparr>"
proof -
  have p: "ascii ''Bologna'' \<in> set ALL_PROVINCES"
    using in_hierarchy_lookup(3)[OF bologna] by (simp add: all_provinces_set)
  from self_resolution p lazio(2) centro in_hierarchy_lookup(1,2)[OF bologna] lazio(1)
  show ?thesis by fastforce
qed

text \<open>
  C2 as stated, that \<open>base_normalize\<close> is idempotent on every text, fails: the prefix is
  removed once per call, so a text that carries the prefix twice loses one on each call.
\<close>

theorem normalize_not_idempotent:
  "base_normalize (base_normalize (ascii ''provincia di provincia di napoli''))
     \<noteq> base_normalize (ascii ''provincia di provincia di napoli'')"
  by code_simp

text \<open>
  C2, amended. For every text \<open>s\<close> and whatever the tables of the runtime are: if the result
  \<open>t\<close> of \<open>base_normalize\<close> on \<open>s\<close> is a text that \<open>lower\<close> and \<open>strip_accents\<close> leave
  unchanged, then a second call returns \<open>t\<close> again exactly when \<open>t\<close> does not itself begin
  with one of \<open>provincia di\<close>, \<open>prov di\<close>, \<open>citta metropolitana di\<close> followed by
  whitespace. Both conditions are needed. The first fails where the decomposition returns a
  capital letter, which only the second call lower-cases (lemma
  \<open>capital_from_decomposition\<close>); the second holds of the characters a Unicode decomposition
  returns and is a hypothesis because the decomposition is a parameter here.
\<close>

theorem normalize_idempotent_iff:
  assumes "str_lower (base_normalize_with str_lower decompose is_combining s)
             = base_normalize_with str_lower decompose is_combining s"
    and "strip_accents_with decompose is_combining
             (base_normalize_with str_lower decompose is_combining s)
             = base_normalize_with str_lower decompose is_combining s"
  shows "base_normalize_with str_lower decompose is_combining
             (base_normalize_with str_lower decompose is_combining s)
           = base_normalize_with str_lower decompose is_combining s
         \<longleftrightarrow> \<not> has_prefix (base_normalize_with str_lower decompose is_combining s)"
proof -
  define t where "t = base_normalize_with str_lower decompose is_combining s"
  have "shaped t" unfolding t_def by (rule shaped_base_normalize_with)
  from base_normalize_with_shaped[OF this] assms
  have r: "base_normalize_with str_lower decompose is_combining t = sub_prefix t"
    by (simp add: t_def)
  have "sub_prefix t = t \<longleftrightarrow> \<not> has_prefix t"
  proof (cases "has_prefix t")
    case True
    from sub_prefix_shorter[OF this] have "sub_prefix t \<noteq> t" by auto
    with True show ?thesis by simp
  next
    case False
    then show ?thesis by (simp add: sub_prefix_noop)
  qed
  with r show ?thesis by (simp add: t_def)
qed

theorem normalize_idempotent_iff_witness:
  "lower (base_normalize_with lower nfkd combining (ascii ''Provincia di Napoli''))
     = base_normalize_with lower nfkd combining (ascii ''Provincia di Napoli'')
   \<and> strip_accents_with nfkd combining
       (base_normalize_with lower nfkd combining (ascii ''Provincia di Napoli''))
     = base_normalize_with lower nfkd combining (ascii ''Provincia di Napoli'')
   \<and> \<not> has_prefix (base_normalize_with lower nfkd combining (ascii ''Provincia di Napoli''))
   \<and> base_normalize_with lower nfkd combining
       (base_normalize_with lower nfkd combining (ascii ''Provincia di Napoli''))
     = base_normalize_with lower nfkd combining (ascii ''Provincia di Napoli'')"
proof -
  have v: "base_normalize_with lower nfkd combining (ascii ''Provincia di Napoli'')
      = ascii ''napoli''"
    by code_simp
  have l: "lower (ascii ''napoli'') = ascii ''napoli''" by code_simp
  have a: "strip_accents_with nfkd combining (ascii ''napoli'') = ascii ''napoli''" by code_simp
  have h: "\<not> has_prefix (ascii ''napoli'')" by code_simp
  from normalize_idempotent_iff[of lower nfkd combining "ascii ''Provincia di Napoli''"] l a h
  show ?thesis by (simp add: v)
qed

text \<open>
  C3. Hierarchy consistency. Whenever the standardizer returns a record of level
  \<open>'province'\<close>, for a raw label or for any token, its region is \<open>PROVINCE_TO_REGION\<close> of
  its province, a region that lists the province in \<open>REGION_TO_PROVINCES\<close>, and its
  macro-area is \<open>REGION_TO_MACRO\<close> of that region, a macro-area that lists the region in
  \<open>MACRO_TO_REGIONS\<close>.
\<close>

theorem province_hierarchy_consistent:
  assumes "standardize_territory raw = Inr t \<or> standardize_token tok = Inr t"
    and "level t = ascii ''province''"
  shows "\<exists>p r m ps rs.
           province_std t = Some p \<and> region_std t = Some r \<and> macro_std t = Some m
           \<and> getitem PROVINCE_TO_REGION p = Inr r \<and> getitem REGION_TO_MACRO r = Inr m
           \<and> (r, ps) \<in> set REGION_TO_PROVINCES \<and> p \<in> set ps
           \<and> (m, rs) \<in> set MACRO_TO_REGIONS \<and> r \<in> set rs"
proof -
  from assms(1) have "derived t"
    using standardize_territory_derived[of raw] standardize_token_derived[of tok] by auto
  from derived_province[OF this assms(2)] obtain p r m where
    f: "province_std t = Some p" "region_std t = Some r" "macro_std t = Some m"
       "getitem PROVINCE_TO_REGION p = Inr r" "getitem REGION_TO_MACRO r = Inr m"
    by blast
  from getitem_invert[OF f(4)[unfolded PROVINCE_TO_REGION_def]] obtain ps where
    "(r, ps) \<in> set REGION_TO_PROVINCES" "p \<in> set ps" by blast
  moreover from getitem_invert[OF f(5)[unfolded REGION_TO_MACRO_def]] obtain rs where
    "(m, rs) \<in> set MACRO_TO_REGIONS" "r \<in> set rs" by blast
  ultimately show ?thesis using f by blast
qed

theorem province_hierarchy_consistent_witness:
  "standardize_territory (Some (ascii ''Bologna'')) =
     Inr \<lparr>level = ascii ''province'', province_std = Some (ascii ''Bologna''),
          region_std = Some (ascii ''Emilia-Romagna''), macro_std = Some (ascii ''Nord-est'')\<rparr>
   \<and> getitem PROVINCE_TO_REGION (ascii ''Bologna'') = Inr (ascii ''Emilia-Romagna'')
   \<and> getitem REGION_TO_MACRO (ascii ''Emilia-Romagna'') = Inr (ascii ''Nord-est'')
   \<and> (\<exists>ps rs. (ascii ''Emilia-Romagna'', ps) \<in> set REGION_TO_PROVINCES
         \<and> ascii ''Bologna'' \<in> set ps
         \<and> (ascii ''Nord-est'', rs) \<in> set MACRO_TO_REGIONS
         \<and> ascii ''Emilia-Romagna'' \<in> set rs)"
proof -
  let ?t = "\<lparr>level = ascii ''province'', province_std = Some (ascii ''Bologna''),
          region_std = Some (ascii ''Emilia-Romagna''), macro_std = Some (ascii ''Nord-est'')\<rparr>"
  have "standardize_territory (Some (ascii ''Bologna'')) = Inr ?t
      \<or> standardize_token [] = Inr ?t"
    using standardize_bologna by simp
  from province_hierarchy_consistent[OF this] standardize_bologna
  show ?thesis by auto
qed

text \<open>
  C4. Priority of provinces. If the normal form of the input is a key of \<open>NORM_PROV\<close>, that
  is, the normal form of a canonical province name, the standardizer returns level
  \<open>'province'\<close>, never \<open>'region'\<close> or \<open>'macro'\<close>, and the province is the one with
  that normal form.
\<close>

theorem exact_province_wins:
  assumes "contains_key NORM_PROV (base_normalize s)"
  shows "\<exists>t p. standardize_territory (Some s) = Inr t
           \<and> level t = ascii ''province'' \<and> level t \<noteq> ascii ''region''
           \<and> level t \<noteq> ascii ''macro''
           \<and> province_std t = Some p \<and> p \<in> set ALL_PROVINCES
           \<and> base_normalize p = base_normalize s"
proof -
  from assms obtain p where p: "p \<in> set province_names" "base_normalize s = base_normalize p"
    by (auto simp: contains_key_iff norm_prov_keys)
  from standardize_province[OF p] p level_names_differ show ?thesis
    by (auto simp: all_provinces_set)
qed

theorem exact_province_wins_witness:
  "contains_key NORM_PROV (base_normalize (ascii ''provincia di Napoli''))
   \<and> (\<exists>t. standardize_territory (Some (ascii ''provincia di Napoli'')) = Inr t
         \<and> level t = ascii ''province'' \<and> province_std t = Some (ascii ''Napoli''))"
proof -
  have n: "ascii ''Napoli'' \<in> set province_names"
    by (rule in_hierarchy_lookup(3)[OF napoli])
  have e: "base_normalize (ascii ''provincia di Napoli'') = base_normalize (ascii ''Napoli'')"
    using examples_raw by (elim conjE)
  have c: "contains_key NORM_PROV (base_normalize (ascii ''provincia di Napoli''))"
    using n by (simp add: contains_key_iff norm_prov_keys e)
  from exact_province_wins[OF c] obtain t p where
    t: "standardize_territory (Some (ascii ''provincia di Napoli'')) = Inr t"
       "level t = ascii ''province''" "province_std t = Some p" "p \<in> set ALL_PROVINCES"
       "base_normalize p = base_normalize (ascii ''provincia di Napoli'')"
    by blast
  have "p = ascii ''Napoli''"
    using normalize_injective[of "ascii ''Napoli''" p] t(4,5) n e
    by (simp add: canonical_names_def all_provinces_set)
  with t c show ?thesis by auto
qed

text \<open>
  C5. Unknown boundary. \<open>None\<close>, the empty text and \<open>"Xyzzy Nonexistent"\<close> each give the
  record of level \<open>'unknown'\<close> whose three other fields are \<open>None\<close>, and none of them
  raises: the result is a record (\<open>Inr\<close>), not an exception.
\<close>

theorem unknown_boundary:
  "standardize_territory None = Inr unknown_record
   \<and> standardize_territory (Some []) = Inr unknown_record
   \<and> standardize_territory (Some (ascii ''Xyzzy Nonexistent'')) = Inr unknown_record
   \<and> unknown_record = \<lparr>level = ascii ''unknown'', province_std = None, region_std = None,
                        macro_std = None\<rparr>"
proof -
  have e: "base_normalize [] = []"
    using tokens_raw by (elim conjE)
  have x: "\<not> contains (ascii ''aosta'') (base_normalize (ascii ''Xyzzy Nonexistent''))"
    using tokens_raw by (elim conjE)
  have "\<not> contains (ascii ''aosta'') []"
    by (simp add: ascii_def)
  then have "standardize_token (base_normalize []) = Inr unknown_record"
    using unknown_tokens[of "base_normalize []"] by (simp add: standardize_token_def e)
  moreover have "standardize_token (base_normalize (ascii ''Xyzzy Nonexistent'')) = Inr unknown_record"
    using unknown_tokens[of "base_normalize (ascii ''Xyzzy Nonexistent'')"] x
    by (simp add: standardize_token_def)
  ultimately show ?thesis
    by (simp add: standardize_territory_def unknown_record_def)
qed

text \<open>
  C6. Alias coverage. For every entry of \<open>CANONICAL_TO_ALIASES\<close> and every variant listed
  for its canonical name, the standardizer returns for the variant the very record it
  returns for the canonical name, and that record carries the canonical name as its province
  or, for a region, as its region.
\<close>

theorem alias_coverage:
  "\<forall>(canonical, variants) \<in> set CANONICAL_TO_ALIASES. \<forall>v \<in> set variants.
     \<exists>t. standardize_territory (Some v) = Inr t
        \<and> standardize_territory (Some canonical) = Inr t
        \<and> (province_std t = Some canonical
            \<or> (province_std t = None \<and> region_std t = Some canonical))"
proof (intro ballI, clarify)
  fix c vs v
  assume e: "(c, vs) \<in> set CANONICAL_TO_ALIASES" and v: "v \<in> set vs"
  have a: "map_of NORM_ALIAS (base_normalize v) = Some c"
    by (rule variant_alias[OF e v])
  from e have "c \<in> set (keys CANONICAL_TO_ALIASES)"
    by (force simp: keys_def)
  from manual_canonical[OF this]
  show "\<exists>t. standardize_territory (Some v) = Inr t
        \<and> standardize_territory (Some c) = Inr t
        \<and> (province_std t = Some c \<or> (province_std t = None \<and> region_std t = Some c))"
  proof
    assume p: "c \<in> set province_names"
    then have "map_of NORM_ALIAS (base_normalize c) = Some c"
      by (intro canonical_alias) (simp add: canonical_names_def)
    from resolves_province[OF p this] resolves_province[OF p a] show ?thesis by auto
  next
    assume r: "c \<in> set REGIONS"
    then have "map_of NORM_ALIAS (base_normalize c) = Some c"
      using regions_listed(1)[OF r] by (intro canonical_alias) (simp add: canonical_names_def)
    from resolves_region[OF r this] resolves_region[OF r a] show ?thesis by auto
  qed
qed

theorem alias_coverage_witness:
  "standardize_territory (Some (ascii ''bat'')) =
     Inr \<lparr>level = ascii ''province'', province_std = Some (ascii ''Barletta-Andria-Trani''),
          region_std = Some (ascii ''Puglia''), macro_std = Some (ascii ''Sud'')\<rparr>
   \<and> standardize_territory (Some (ascii ''Barletta-Andria-Trani'')) =
     Inr \<lparr>level = ascii ''province'', province_std = Some (ascii ''Barletta-Andria-Trani''),
          region_std = Some (ascii ''Puglia''), macro_std = Some (ascii ''Sud'')\<rparr>"
proof -
  from examples_raw have
    "list_ex (\<lambda>(c, vs). c = ascii ''Barletta-Andria-Trani'' \<and> ascii ''bat'' \<in> set vs)
       CANONICAL_TO_ALIASES"
    by (elim conjE)
  then obtain vs where
    e: "(ascii ''Barletta-Andria-Trani'', vs) \<in> set CANONICAL_TO_ALIASES" "ascii ''bat'' \<in> set vs"
    by (auto simp: list_ex_iff)
  from alias_coverage e obtain t where
    t: "standardize_territory (Some (ascii ''bat'')) = Inr t"
       "standardize_territory (Some (ascii ''Barletta-Andria-Trani'')) = Inr t"
    by fastforce
  have "standardize_territory (Some (ascii ''Barletta-Andria-Trani'')) =
     Inr \<lparr>level = ascii ''province'', province_std = Some (ascii ''Barletta-Andria-Trani''),
          region_std = Some (ascii ''Puglia''), macro_std = Some (ascii ''Sud'')\<rparr>"
    using standardize_province[OF in_hierarchy_lookup(3)[OF barletta] refl]
      in_hierarchy_lookup(1,2)[OF barletta] by auto
  with t show ?thesis by simp
qed

text \<open>
  C7. Field presence. For every raw label, and for every token, the standardizer returns
  a record (it never raises) whose level is one of the four levels and whose fields follow
  the level: \<open>province_std\<close> is present exactly at level \<open>'province'\<close>, \<open>region_std\<close>
  exactly at the levels \<open>'province'\<close> and \<open>'region'\<close>, \<open>macro_std\<close> exactly at the levels
  \<open>'province'\<close>, \<open>'region'\<close> and \<open>'macro'\<close>; at level \<open>'unknown'\<close> all three are absent.
\<close>

theorem field_presence:
  "(\<exists>t. standardize_territory raw = Inr t \<and> field_pattern t)
   \<and> (\<exists>t. standardize_token tok = Inr t \<and> field_pattern t)"
  using standardize_territory_derived[of raw] standardize_token_derived[of tok]
  by (auto intro: derived_pattern)

theorem field_presence_witness:
  "\<exists>t. standardize_territory (Some (ascii ''Lazio'')) = Inr t \<and> level t = ascii ''region''
      \<and> province_std t = None \<and> region_std t \<noteq> None \<and> macro_std t \<noteq> None"
proof -
  from field_presence[of "Some (ascii ''Lazio'')" "[]"] obtain t where
    t: "standardize_territory (Some (ascii ''Lazio'')) = Inr t" "field_pattern t"
    by blast
  from t(1) standardize_lazio have l: "level t = ascii ''region''" by auto
  with t(2) level_names_differ have
    "province_std t = None \<and> region_std t \<noteq> None \<and> macro_std t \<noteq> None"
    unfolding field_pattern_def by auto
  with t(1) l show ?thesis by blast
qed


text \<open>
  C9. The Aosta heuristic. When the alias pass, the exact pass and the fuzzy pass all fall
  through on a token that contains \<open>aosta\<close>, the result is the region
  \<open>Valle d'Aosta/Vallee d'Aoste\<close> (written with its accent in the data) with macro-area
  \<open>Nord-ovest\<close>. Both \<open>"valle d'aosta"\<close> and \<open>"Valle dAosta"\<close> give that record: the first
  through the alias map, the second through the heuristic.
\<close>

theorem aosta_heuristic:
  "(alias_pass tok = Inr None \<longrightarrow> exact_pass tok = Inr None \<longrightarrow> fuzzy_pass tok = Inr None
      \<longrightarrow> contains (ascii ''aosta'') tok
      \<longrightarrow> standardize_token tok =
            Inr \<lparr>level = ascii ''region'', province_std = None,
                 region_std = Some Valle_d_Aosta, macro_std = Some (ascii ''Nord-ovest'')\<rparr>)
   \<and> standardize_territory (Some (ascii ''valle d'aosta'')) =
       Inr \<lparr>level = ascii ''region'', province_std = None,
            region_std = Some Valle_d_Aosta, macro_std = Some (ascii ''Nord-ovest'')\<rparr>
   \<and> standardize_territory (Some (ascii ''Valle dAosta'')) =
       Inr \<lparr>level = ascii ''region'', province_std = None,
            region_std = Some Valle_d_Aosta, macro_std = Some (ascii ''Nord-ovest'')\<rparr>"
proof -
  have 1: "standardize_token tok =
            Inr \<lparr>level = ascii ''region'', province_std = None,
                 region_std = Some Valle_d_Aosta, macro_std = Some (ascii ''Nord-ovest'')\<rparr>"
    if "alias_pass tok = Inr None" "exact_pass tok = Inr None" "fuzzy_pass tok = Inr None"
      "contains (ascii ''aosta'') tok" for tok
    using that by (simp add: standardize_token_def)
  from examples_raw have
    "list_ex (\<lambda>(c, vs). c = Valle_d_Aosta \<and> ascii ''valle d'aosta'' \<in> set vs)
       CANONICAL_TO_ALIASES"
    by (elim conjE)
  then obtain vs where
    "(Valle_d_Aosta, vs) \<in> set CANONICAL_TO_ALIASES" "ascii ''valle d'aosta'' \<in> set vs"
    by (auto simp: list_ex_iff)
  from resolves_region[OF valle_d_aosta(2) variant_alias[OF this]] valle_d_aosta(1)
  have 2: "standardize_territory (Some (ascii ''valle d'aosta'')) =
       Inr \<lparr>level = ascii ''region'', province_std = None,
            region_std = Some Valle_d_Aosta, macro_std = Some (ascii ''Nord-ovest'')\<rparr>"
    by auto
  have "contains (ascii ''aosta'') (base_normalize (ascii ''Valle dAosta''))"
    using tokens_raw by (elim conjE)
  with unknown_tokens[of "base_normalize (ascii ''Valle dAosta'')"]
  have 3: "standardize_territory (Some (ascii ''Valle dAosta'')) =
       Inr \<lparr>level = ascii ''region'', province_std = None,
            region_std = Some Valle_d_Aosta, macro_std = Some (ascii ''Nord-ovest'')\<rparr>"
    by (simp add: standardize_territory_def 1)
  from 1 2 3 show ?thesis by blast
qed

theorem aosta_heuristic_witness:
  "alias_pass (base_normalize (ascii ''Valle dAosta'')) = Inr None
   \<and> exact_pass (base_normalize (ascii ''Valle dAosta'')) = Inr None
   \<and> fuzzy_pass (base_normalize (ascii ''Valle dAosta'')) = Inr None
   \<and> contains (ascii ''aosta'') (base_normalize (ascii ''Valle dAosta''))
   \<and> standardize_token (base_normalize (ascii ''Valle dAosta'')) =
       Inr \<lparr>level = ascii ''region'', province_std = None,
            region_std = Some Valle_d_Aosta, macro_std = Some (ascii ''Nord-ovest'')\<rparr>"
proof -
  have c: "contains (ascii ''aosta'') (base_normalize (ascii ''Valle dAosta''))"
    using tokens_raw by (elim conjE)
  from unknown_tokens[of "base_normalize (ascii ''Valle dAosta'')"] c
    aosta_heuristic[of "base_normalize (ascii ''Valle dAosta'')"]
  show ?thesis by simp
qed

subsection \<open>The coverage functions reject every level but province and region\<close>

lemma territory_col_for_rejects:
  assumes "lvl \<noteq> ascii ''province''" "lvl \<noteq> ascii ''region''"
  shows "territory_col_for lvl =
    Inl (ValueError (ascii ''level must be 'province' or 'region'' @ [0x27]))"
  using assms by (simp add: territory_col_for_def)

text \<open>
  C10. For every level argument other than \<open>'province'\<close> and \<open>'region'\<close>, whatever the data
  frame, the filters and the other arguments are, and whatever the functions would go on to
  compute, \<open>compute_coverage\<close> and \<open>list_missing_territories\<close> raise the \<open>ValueError\<close> of
  \<open>_territory_col_for\<close>. The witness takes the level \<open>'macro'\<close>.
\<close>

theorem coverage_rejects_other_levels:
  assumes "lvl \<noteq> ascii ''province''" "lvl \<noteq> ascii ''region''"
  shows "compute_coverage body df lvl filters expected =
           Inl (ValueError (ascii ''level must be 'province' or 'region'' @ [0x27]))
       \<and> list_missing_territories body' df' variable year lvl filters' expected' =
           Inl (ValueError (ascii ''level must be 'province' or 'region'' @ [0x27]))"
  using territory_col_for_rejects[OF assms]
  by (simp add: compute_coverage_def list_missing_territories_def)

theorem coverage_rejects_other_levels_witness:
  "ascii ''macro'' \<noteq> ascii ''province'' \<and> ascii ''macro'' \<noteq> ascii ''region''
   \<and> compute_coverage (\<lambda>col df lvl filters expected. Inr col) () (ascii ''macro'') () (ascii ''all'') =
       Inl (ValueError (ascii ''level must be 'province' or 'region'' @ [0x27]))
   \<and> list_missing_territories (\<lambda>col df variable year lvl filters expected. Inr col) ()
       (ascii ''pil'') 2020 (ascii ''macro'') () (ascii ''all'') =
       Inl (ValueError (ascii ''level must be 'province' or 'region'' @ [0x27]))"
proof -
  have a: "ascii ''macro'' \<noteq> ascii ''province''" and b: "ascii ''macro'' \<noteq> ascii ''region''"
    by (simp_all add: ascii_def)
  show ?thesis
    using a b coverage_rejects_other_levels[OF a b,
        of "\<lambda>col df lvl filters expected. Inr col" "()" "()" "ascii ''all''"
           "\<lambda>col df variable year lvl filters expected. Inr col" "()" "ascii ''pil''" 2020 "()"
           "ascii ''all''"]
    by simp
qed

end
